theory Spec2Isabelle
  imports Complex_Main "HOL-Library.Product_Lexorder"
begin

section \<open>Data model (the SQLAlchemy tables of app.py)\<close>

text \<open>
  Each table of \<^verbatim>\<open>app.py\<close> is a list of rows in insertion (rowid) order. The fields
  of a row carry a short table prefix, because the tables share column names
  (\<^verbatim>\<open>id\<close>, \<^verbatim>\<open>exam_id\<close>, \<^verbatim>\<open>question_id\<close>, \<^verbatim>\<open>student_id\<close>). The \<^verbatim>\<open>created_at\<close>
  columns and the \<^verbatim>\<open>students\<close> and \<^verbatim>\<open>admins\<close> tables are read by no operation
  modelled here and are left out.

  A \<^verbatim>\<open>datetime\<close> is the number of microseconds on the UTC time line, a
  \<^verbatim>\<open>timedelta\<close> a number of microseconds; the calendar range of Python's
  \<^verbatim>\<open>datetime\<close> (years 1 to 9999) is not modelled. Every call of
  \<^verbatim>\<open>datetime.utcnow()\<close> made while one request is served reads the same instant,
  the parameter \<open>now\<close>. The \<^verbatim>\<open>Float\<close> columns \<^verbatim>\<open>score\<close> and \<^verbatim>\<open>total_score\<close> hold
  integers: grading only ever writes the Python integers 0 and 1 and their sums.
\<close>

type_synonym datetime = int

record Question =
  q_id :: nat
  q_question_text :: string
  q_model_answer :: string

record Exam =
  e_id :: nat
  e_student_id :: nat
  e_start_time :: "datetime option"
  e_end_time :: "datetime option"
  e_total_score :: int
  e_status :: string
  e_duration_minutes :: int

record ExamQuestion =
  eq_id :: nat
  eq_exam_id :: nat
  eq_question_id :: nat
  eq_question_order :: nat

record ExamAnswer =
  ea_id :: nat
  ea_exam_id :: nat
  ea_question_id :: nat
  ea_student_id :: "nat option"
  ea_student_answer :: "string option"
  ea_is_correct :: bool
  ea_score :: int

record AuditLog =
  al_id :: nat
  al_student_id :: "nat option"
  al_action :: string
  al_timestamp :: datetime

record db =
  questions :: "Question list"
  exams :: "Exam list"
  exam_questions :: "ExamQuestion list"
  exam_answers :: "ExamAnswer list"
  audit_logs :: "AuditLog list"

text \<open>
  What a request can end in: an uncaught Python exception (answered with status 500),
  or one of the responses the routes build.
\<close>

datatype error = AttributeError | IntegrityError | TypeError

record results_data =
  rd_exam_id :: nat
  rd_total_score :: int
  rd_max_score :: nat
  rd_correct_count :: nat
  rd_incorrect_count :: int
  rd_topics :: "string list"
  rd_topic_correct :: "nat list"
  rd_topic_total :: "nat list"

text \<open>One entry of the \<^verbatim>\<open>answers\<close> list of a submission: \<^verbatim>\<open>item.get("question_id")\<close>
  (\<open>None\<close> when the key is missing or null) and \<^verbatim>\<open>item.get("answer", "")\<close>
  (\<open>None\<close> when the value is null).\<close>

record answer_item =
  item_question_id :: "nat option"
  item_answer :: "string option"

datatype response =
    RedirectLogin
  | RedirectDashboard string
  | RedirectExamPage nat
  | RedirectResults nat
  | RenderExam nat int
  | Abort404
  | Abort403
  | JsonAutoSubmitted nat
  | JsonInvalidPayload
  | JsonGraded int nat
  | JsonResults results_data

text \<open>
  An integer primary key without a value gets the largest key of the table plus one
  (SQLite's rowid rule), 1 in an empty table.
\<close>

definition next_id :: "nat list \<Rightarrow> nat" where
  "next_id ids = Suc (fold max ids 0)"

definition Exam_get :: "db \<Rightarrow> nat \<Rightarrow> Exam option" where
  "Exam_get s exam_id = find (\<lambda>e. e_id e = exam_id) (exams s)"

definition Question_get :: "db \<Rightarrow> nat \<Rightarrow> Question option" where
  "Question_get s question_id = find (\<lambda>q. q_id q = question_id) (questions s)"

text \<open>Python's \<^verbatim>\<open>str\<close> of a non-negative integer, for the f-strings of the audit log.\<close>

function str_nat :: "nat \<Rightarrow> string" where
  "str_nat n =
     (if n < 10 then [char_of (48 + n)]
      else str_nat (n div 10) @ [char_of (48 + n mod 10)])"
  by pat_completeness auto
termination
  by (relation "measure (\<lambda>n. n)") auto

declare str_nat.simps [simp del]

definition str_int :: "int \<Rightarrow> string" where
  "str_int i = (if i < 0 then CHR ''-'' # str_nat (nat (- i)) else str_nat (nat i))"

definition add_log :: "datetime \<Rightarrow> nat \<Rightarrow> string \<Rightarrow> db \<Rightarrow> db" where
  "add_log now student_id action s =
     s\<lparr>audit_logs := audit_logs s @
        [\<lparr>al_id = next_id (map al_id (audit_logs s)), al_student_id = Some student_id,
          al_action = action, al_timestamp = now\<rparr>]\<rparr>"

section \<open>Similarity grader\<close>

text \<open>
  \<^verbatim>\<open>grade_answer_text\<close> calls \<^verbatim>\<open>difflib.SequenceMatcher(None, s, m).ratio()\<close> of the
  Python standard library. The matcher is modelled as CPython implements it, with
  \<^verbatim>\<open>isjunk = None\<close> and \<^verbatim>\<open>autojunk = True\<close>: the index \<^verbatim>\<open>b2j\<close> of the second
  sequence without its popular elements, \<^verbatim>\<open>find_longest_match\<close> with its row-by-row
  table \<^verbatim>\<open>j2len\<close> and its two extension loops, the work list of
  \<^verbatim>\<open>get_matching_blocks\<close>, and \<^verbatim>\<open>ratio\<close>. The set \<^verbatim>\<open>bjunk\<close> is empty, so the two
  loops of \<^verbatim>\<open>find_longest_match\<close> that absorb junk never run and are left out.
\<close>

definition indices_of :: "'a \<Rightarrow> 'a list \<Rightarrow> nat list" where
  "indices_of elt b = filter (\<lambda>i. b ! i = elt) [0..<length b]"

text \<open>
  \<^verbatim>\<open>b2j.get(elt, [])\<close> after \<^verbatim>\<open>__chain_b\<close>: the positions of \<open>elt\<close> in \<open>b\<close> in
  ascending order, or nothing when \<open>b\<close> has at least 200 elements and \<open>elt\<close> is
  popular (it occurs more than \<open>n div 100 + 1\<close> times).
\<close>

definition b2j_get :: "'a list \<Rightarrow> 'a \<Rightarrow> nat list" where
  "b2j_get b elt =
     (let idxs = indices_of elt b; n = length b
      in if 200 \<le> n \<and> n div 100 + 1 < length idxs then [] else idxs)"

text \<open>\<^verbatim>\<open>j2len.get(j - 1, 0)\<close>; the key \<open>-1\<close> is never in the table.\<close>

definition j2lenget :: "(nat \<rightharpoonup> nat) \<Rightarrow> nat \<Rightarrow> nat" where
  "j2lenget j2len j =
     (if j = 0 then 0 else case j2len (j - 1) of None \<Rightarrow> 0 | Some v \<Rightarrow> v)"

text \<open>
  The inner loop of \<^verbatim>\<open>find_longest_match\<close> over the positions \<open>j\<close> of \<open>a[i]\<close> in
  \<open>b\<close>: \<^verbatim>\<open>continue\<close> below \<open>blo\<close>, \<^verbatim>\<open>break\<close> from \<open>bhi\<close> on. The state is
  \<open>(newj2len, besti, bestj, bestsize)\<close>.
\<close>

fun scan_row ::
  "nat \<Rightarrow> nat \<Rightarrow> nat \<Rightarrow> (nat \<rightharpoonup> nat) \<Rightarrow> nat list \<Rightarrow>
   (nat \<rightharpoonup> nat) \<times> nat \<times> nat \<times> nat \<Rightarrow> (nat \<rightharpoonup> nat) \<times> nat \<times> nat \<times> nat" where
  "scan_row blo bhi i j2len [] st = st"
| "scan_row blo bhi i j2len (j # js) (newj2len, besti, bestj, bestsize) =
     (if j < blo then scan_row blo bhi i j2len js (newj2len, besti, bestj, bestsize)
      else if bhi \<le> j then (newj2len, besti, bestj, bestsize)
      else
        let k = j2lenget j2len j + 1
        in if bestsize < k
           then scan_row blo bhi i j2len js (newj2len(j \<mapsto> k), i + 1 - k, j + 1 - k, k)
           else scan_row blo bhi i j2len js (newj2len(j \<mapsto> k), besti, bestj, bestsize))"

text \<open>One round of the outer loop: row \<open>i\<close> starts from an empty \<^verbatim>\<open>newj2len\<close>.\<close>

definition scan_step ::
  "'a list \<Rightarrow> 'a list \<Rightarrow> nat \<Rightarrow> nat \<Rightarrow> nat \<Rightarrow>
   (nat \<rightharpoonup> nat) \<times> nat \<times> nat \<times> nat \<Rightarrow> (nat \<rightharpoonup> nat) \<times> nat \<times> nat \<times> nat" where
  "scan_step a b blo bhi i st =
     (case st of (j2len, besti, bestj, bestsize) \<Rightarrow>
        scan_row blo bhi i j2len (b2j_get b (a ! i)) (Map.empty, besti, bestj, bestsize))"

function extend_left ::
  "'a list \<Rightarrow> 'a list \<Rightarrow> nat \<Rightarrow> nat \<Rightarrow> nat \<times> nat \<times> nat \<Rightarrow> nat \<times> nat \<times> nat" where
  "extend_left a b alo blo (besti, bestj, bestsize) =
     (if alo < besti \<and> blo < bestj \<and> a ! (besti - 1) = b ! (bestj - 1)
      then extend_left a b alo blo (besti - 1, bestj - 1, bestsize + 1)
      else (besti, bestj, bestsize))"
  by pat_completeness auto
termination
  by (relation "measure (\<lambda>(a, b, alo, blo, besti, bestj, bestsize). besti)") auto

function extend_right ::
  "'a list \<Rightarrow> 'a list \<Rightarrow> nat \<Rightarrow> nat \<Rightarrow> nat \<times> nat \<times> nat \<Rightarrow> nat \<times> nat \<times> nat" where
  "extend_right a b ahi bhi (besti, bestj, bestsize) =
     (if besti + bestsize < ahi \<and> bestj + bestsize < bhi \<and>
         a ! (besti + bestsize) = b ! (bestj + bestsize)
      then extend_right a b ahi bhi (besti, bestj, bestsize + 1)
      else (besti, bestj, bestsize))"
  by pat_completeness auto
termination
  by (relation "measure (\<lambda>(a, b, ahi, bhi, besti, bestj, bestsize). ahi - (besti + bestsize))")
    auto

declare extend_left.simps [simp del]
declare extend_right.simps [simp del]

definition find_longest_match ::
  "'a list \<Rightarrow> 'a list \<Rightarrow> nat \<Rightarrow> nat \<Rightarrow> nat \<Rightarrow> nat \<Rightarrow> nat \<times> nat \<times> nat" where
  "find_longest_match a b alo ahi blo bhi =
     (case fold (scan_step a b blo bhi) [alo..<ahi] (Map.empty, alo, blo, 0) of
        (j2len, best) \<Rightarrow> extend_right a b ahi bhi (extend_left a b alo blo best))"

text \<open>
  The work list of \<^verbatim>\<open>get_matching_blocks\<close>. The head of \<open>queue\<close> is the element
  \<^verbatim>\<open>queue.pop()\<close> takes. The loop ends because a match of positive size lies inside
  the window it was searched in, so both windows pushed are shorter than the one
  popped.
\<close>

function matching_loop ::
  "'a list \<Rightarrow> 'a list \<Rightarrow> (nat \<times> nat \<times> nat \<times> nat) list \<Rightarrow> (nat \<times> nat \<times> nat) list \<Rightarrow>
   (nat \<times> nat \<times> nat) list" where
  "matching_loop a b [] matching_blocks = matching_blocks"
| "matching_loop a b ((alo, ahi, blo, bhi) # queue) matching_blocks =
     (case find_longest_match a b alo ahi blo bhi of
        (i, j, k) \<Rightarrow>
          if k = 0 then matching_loop a b queue matching_blocks
          else matching_loop a b
                 ((if i + k < ahi \<and> j + k < bhi then [(i + k, ahi, j + k, bhi)] else []) @
                  (if alo < i \<and> blo < j then [(alo, i, blo, j)] else []) @ queue)
                 (matching_blocks @ [(i, j, k)]))"
  by pat_completeness auto
termination
proof -
  have row: "alo \<le> besti \<Longrightarrow> besti + bestsize \<le> i + 1 \<Longrightarrow> alo \<le> i \<Longrightarrow>
      (\<forall>j v. j2len j = Some v \<longrightarrow> v + alo \<le> i) \<Longrightarrow>
      (\<forall>j v. new j = Some v \<longrightarrow> v + alo \<le> i + 1) \<Longrightarrow>
      scan_row blo bhi i j2len js (new, besti, bestj, bestsize) = (new', bi, bj, bs) \<Longrightarrow>
      alo \<le> bi \<and> bi + bs \<le> i + 1 \<and> (\<forall>j v. new' j = Some v \<longrightarrow> v + alo \<le> i + 1)"
    for alo besti bestsize i j2len new blo bhi js bestj new' bi bj bs
  proof (induction js arbitrary: new besti bestj bestsize)
    case Nil
    then show ?case by simp
  next
    case (Cons j js)
    let ?k = "j2lenget j2len j + 1"
    have k: "?k + alo \<le> i + 1"
      using Cons.prems(3,4) by (auto simp: j2lenget_def split: option.splits)
    have newk: "\<forall>j' v. (new(j \<mapsto> ?k)) j' = Some v \<longrightarrow> v + alo \<le> i + 1"
      using Cons.prems(5) k by auto
    consider (below) "j < blo" | (above) "\<not> j < blo" "bhi \<le> j"
      | (better) "\<not> j < blo" "\<not> bhi \<le> j" "bestsize < ?k"
      | (same) "\<not> j < blo" "\<not> bhi \<le> j" "\<not> bestsize < ?k"
      by blast
    then show ?case
    proof cases
      case below
      then show ?thesis using Cons by simp
    next
      case above
      then show ?thesis using Cons.prems by simp
    next
      case better
      then have "scan_row blo bhi i j2len js (new(j \<mapsto> ?k), i + 1 - ?k, j + 1 - ?k, ?k) =
          (new', bi, bj, bs)"
        using Cons.prems(6) by (simp add: Let_def)
      moreover have "alo \<le> i + 1 - ?k" using k by arith
      moreover have "i + 1 - ?k + ?k \<le> i + 1" using k by arith
      ultimately show ?thesis
        using Cons.IH[of "i + 1 - ?k" ?k "new(j \<mapsto> ?k)" "j + 1 - ?k"] Cons.prems(3,4) newk
        by blast
    next
      case same
      then have "scan_row blo bhi i j2len js (new(j \<mapsto> ?k), besti, bestj, bestsize) =
          (new', bi, bj, bs)"
        using Cons.prems(6) by (simp add: Let_def)
      then show ?thesis
        using Cons.IH[of besti bestsize "new(j \<mapsto> ?k)" bestj] Cons.prems(1,2,3,4) newk
        by blast
    qed
  qed
  have rows: "alo \<le> n \<Longrightarrow>
      fold (scan_step a b blo bhi) [alo..<n] (Map.empty, alo, blo, 0) = (j2len, bi, bj, bs) \<Longrightarrow>
      alo \<le> bi \<and> bi + bs \<le> n \<and> (\<forall>j v. j2len j = Some v \<longrightarrow> v + alo \<le> n)"
    for alo n and a b :: "'a list" and blo bhi j2len bi bj bs
  proof (induction n arbitrary: j2len bi bj bs)
    case 0
    then show ?case by auto
  next
    case (Suc n)
    show ?case
    proof (cases "alo = Suc n")
      case True
      then show ?thesis using Suc.prems by auto
    next
      case False
      then have le: "alo \<le> n" using Suc.prems by simp
      obtain j0 i0 jj0 s0 where
        st: "fold (scan_step a b blo bhi) [alo..<n] (Map.empty, alo, blo, 0) = (j0, i0, jj0, s0)"
        by (metis prod_cases4)
      have inv: "alo \<le> i0 \<and> i0 + s0 \<le> n \<and> (\<forall>j v. j0 j = Some v \<longrightarrow> v + alo \<le> n)"
        using Suc.IH[OF le st] .
      have "scan_step a b blo bhi n (j0, i0, jj0, s0) = (j2len, bi, bj, bs)"
        using Suc.prems(2) le st by simp
      then have "scan_row blo bhi n j0 (b2j_get b (a ! n)) (Map.empty, i0, jj0, s0) =
          (j2len, bi, bj, bs)"
        by (simp add: scan_step_def)
      then show ?thesis
        using row[of alo i0 s0 n j0 Map.empty blo bhi "b2j_get b (a ! n)" jj0 j2len bi bj bs]
          inv le
        by simp
    qed
  qed
  have left: "extend_left a b alo blo (besti, bestj, bestsize) = (bi, bj, bs) \<Longrightarrow>
      alo \<le> besti \<Longrightarrow> alo \<le> bi \<and> bi + bs = besti + bestsize"
    for a b :: "'a list" and alo blo besti bestj bestsize bi bj bs
  proof (induction a b alo blo "(besti, bestj, bestsize)" arbitrary: besti bestj bestsize
      rule: extend_left.induct)
    case (1 a b alo blo besti bestj bestsize)
    show ?case
    proof (cases "alo < besti \<and> blo < bestj \<and> a ! (besti - 1) = b ! (bestj - 1)")
      case True
      then have "extend_left a b alo blo (besti - 1, bestj - 1, bestsize + 1) = (bi, bj, bs)"
        using "1.prems"(1) extend_left.simps[of a b alo blo besti bestj bestsize] by simp
      moreover have "alo \<le> besti - 1"
        using True by arith
      ultimately have "alo \<le> bi \<and> bi + bs = besti - 1 + (bestsize + 1)"
        using "1.hyps"[OF True] by blast
      then show ?thesis using True by auto
    next
      case False
      then show ?thesis
        using "1.prems" extend_left.simps[of a b alo blo besti bestj bestsize] by auto
    qed
  qed
  have right: "extend_right a b ahi bhi (besti, bestj, bestsize) = (bi, bj, bs) \<Longrightarrow>
      besti + bestsize \<le> ahi \<Longrightarrow> bi = besti \<and> bi + bs \<le> ahi"
    for a b :: "'a list" and ahi bhi besti bestj bestsize bi bj bs
  proof (induction a b ahi bhi "(besti, bestj, bestsize)" arbitrary: besti bestj bestsize
      rule: extend_right.induct)
    case (1 a b ahi bhi besti bestj bestsize)
    show ?case
    proof (cases "besti + bestsize < ahi \<and> bestj + bestsize < bhi \<and>
           a ! (besti + bestsize) = b ! (bestj + bestsize)")
      case True
      then have "extend_right a b ahi bhi (besti, bestj, bestsize + 1) = (bi, bj, bs)"
        using "1.prems"(1) extend_right.simps[of a b ahi bhi besti bestj bestsize] by simp
      then have "bi = besti \<and> bi + bs \<le> ahi"
        using "1.hyps"[OF True] True by simp
      then show ?thesis by simp
    next
      case False
      then show ?thesis
        using "1.prems" extend_right.simps[of a b ahi bhi besti bestj bestsize] by auto
    qed
  qed
  have inside: "alo \<le> i \<and> i + k \<le> ahi"
    if "find_longest_match a b alo ahi blo bhi = (i, j, k)" "0 < k"
    for a b :: "'a list" and alo ahi blo bhi i j k
  proof (cases "alo \<le> ahi")
    case True
    obtain j0 i0 jj0 s0 where
      st: "fold (scan_step a b blo bhi) [alo..<ahi] (Map.empty, alo, blo, 0) = (j0, i0, jj0, s0)"
      by (metis prod_cases4)
    have inv: "alo \<le> i0 \<and> i0 + s0 \<le> ahi"
      using rows[OF True st] by simp
    obtain i1 j1 s1 where l: "extend_left a b alo blo (i0, jj0, s0) = (i1, j1, s1)"
      by (metis prod_cases3)
    have l': "alo \<le> i1 \<and> i1 + s1 = i0 + s0"
      using left[OF l] inv by simp
    have "extend_right a b ahi bhi (i1, j1, s1) = (i, j, k)"
      using that(1) st l by (simp add: find_longest_match_def)
    from right[OF this] l' inv show ?thesis by simp
  next
    case False
    then have "find_longest_match a b alo ahi blo bhi = (alo, blo, 0)"
      by (simp add: find_longest_match_def extend_left.simps extend_right.simps)
    then show ?thesis using that by simp
  qed
  show ?thesis
    apply (relation "measure (\<lambda>(a, b, queue, blocks).
            sum_list (map (\<lambda>(alo, ahi, blo, bhi). 2 * (ahi - alo) + 1) queue))")
      apply simp
     apply simp
    apply (auto dest!: inside[OF sym])
    done
qed

text \<open>
  After the loop the blocks are sorted (as tuples: lexicographically), adjacent blocks
  are merged, and the sentinel \<open>(len(a), len(b), 0)\<close> is appended.
\<close>

fun collapse_adjacent ::
  "nat \<times> nat \<times> nat \<Rightarrow> (nat \<times> nat \<times> nat) list \<Rightarrow> (nat \<times> nat \<times> nat) list" where
  "collapse_adjacent (i1, j1, k1) [] = (if k1 \<noteq> 0 then [(i1, j1, k1)] else [])"
| "collapse_adjacent (i1, j1, k1) ((i2, j2, k2) # rest) =
     (if i1 + k1 = i2 \<and> j1 + k1 = j2 then collapse_adjacent (i1, j1, k1 + k2) rest
      else (if k1 \<noteq> 0 then [(i1, j1, k1)] else []) @ collapse_adjacent (i2, j2, k2) rest)"

definition get_matching_blocks :: "'a list \<Rightarrow> 'a list \<Rightarrow> (nat \<times> nat \<times> nat) list" where
  "get_matching_blocks a b =
     collapse_adjacent (0, 0, 0)
       (sort (matching_loop a b [(0, length a, 0, length b)] [])) @
     [(length a, length b, 0)]"

text \<open>
  \<^verbatim>\<open>_calculate_ratio\<close> returns the float \<open>2.0 * matches / length\<close>; the model keeps the
  exact rational number. The comparison with the float literal \<^verbatim>\<open>0.60\<close> agrees with
  the exact comparison with \<open>3/5\<close> as long as the two texts have fewer than \<open>10\<^sup>1\<^sup>5\<close>
  characters together: a quotient below \<open>3/5\<close> with denominator \<open>length\<close> is below it
  by at least \<open>1 / (5 * length)\<close>, far more than the rounding error of a double.
\<close>

definition calculate_ratio :: "nat \<Rightarrow> nat \<Rightarrow> rat" where
  "calculate_ratio matches len =
     (if len \<noteq> 0 then 2 * of_nat matches / of_nat len else 1)"

definition ratio :: "'a list \<Rightarrow> 'a list \<Rightarrow> rat" where
  "ratio a b =
     calculate_ratio (sum_list (map (\<lambda>(i, j, k). k) (get_matching_blocks a b)))
       (length a + length b)"

text \<open>
  Text is a list of \<open>char\<close>, read as the code points below 256; on these
  \<^verbatim>\<open>str.strip()\<close> removes the twelve white-space characters of \<^verbatim>\<open>str.isspace\<close> from
  both ends and \<^verbatim>\<open>str.lower()\<close> maps \<open>A\<close> to \<open>Z\<close> and the capital letters of Latin-1
  to their small letters.
\<close>

definition isspace :: "char \<Rightarrow> bool" where
  "isspace c =
     (of_char c \<in> set ([9, 10, 11, 12, 13, 28, 29, 30, 31, 32, 133, 160] :: nat list))"

definition strip :: "string \<Rightarrow> string" where
  "strip s = rev (dropWhile isspace (rev (dropWhile isspace s)))"

definition lower_char :: "char \<Rightarrow> char" where
  "lower_char c =
     (let n = (of_char c :: nat)
      in if (65 \<le> n \<and> n \<le> 90) \<or> (192 \<le> n \<and> n \<le> 222 \<and> n \<noteq> 215)
         then char_of (n + 32) else c)"

definition lower :: "string \<Rightarrow> string" where
  "lower s = map lower_char s"

definition grade_answer_text :: "string \<Rightarrow> string \<Rightarrow> bool \<times> int" where
  "grade_answer_text student_answer model_answer =
     (if student_answer = [] then (False, 0)
      else
        let s = lower (strip student_answer);
            m = lower (strip model_answer);
            similarity = ratio s m;
            is_correct = (0.60 \<le> similarity);
            score = (if is_correct then 1 else 0)
        in (is_correct, score))"

text \<open>
  Two functions used only to reason about the matcher run on a text and itself:
  \<open>drun s i\<close> is the number of consecutive positions ending at \<open>i\<close> whose
  character is not popular in \<open>s\<close>, and \<open>dprev s i\<close> is that number one position
  earlier.
\<close>

fun drun :: "'a list \<Rightarrow> nat \<Rightarrow> nat" where
  "drun s 0 = (if b2j_get s (s ! 0) = [] then 0 else 1)"
| "drun s (Suc i) = (if b2j_get s (s ! Suc i) = [] then 0 else Suc (drun s i))"

definition dprev :: "'a list \<Rightarrow> nat \<Rightarrow> nat" where
  "dprev s i = (if i = 0 then 0 else drun s (i - 1))"

section \<open>Exam timer\<close>

definition timedelta_minutes :: "int \<Rightarrow> int" where
  "timedelta_minutes m = m * 60000000"

definition check_time_allowed :: "Exam \<Rightarrow> datetime \<Rightarrow> bool" where
  "check_time_allowed exam now =
     (case e_start_time exam of
        None \<Rightarrow> False
      | Some start \<Rightarrow> now \<le> start + timedelta_minutes (e_duration_minutes exam))"

section \<open>Exam composer and the Start operation\<close>

text \<open>
  \<^verbatim>\<open>random.sample\<close> is the parameter \<open>sample\<close>: any function from the pool and a count
  to the chosen rows. \<^verbatim>\<open>create_exam_for_student\<close> commits the new \<^verbatim>\<open>Exam\<close> row before
  it reads the question pool.
\<close>

definition add_exam_question :: "nat \<Rightarrow> nat \<times> Question \<Rightarrow> db \<Rightarrow> db" where
  "add_exam_question exam_id p s =
     (case p of (idx, q) \<Rightarrow>
        s\<lparr>exam_questions := exam_questions s @
           [\<lparr>eq_id = next_id (map eq_id (exam_questions s)), eq_exam_id = exam_id,
             eq_question_id = q_id q, eq_question_order = idx\<rparr>]\<rparr>)"

definition create_exam_for_student ::
  "(Question list \<Rightarrow> nat \<Rightarrow> Question list) \<Rightarrow> datetime \<Rightarrow> nat \<Rightarrow> nat \<Rightarrow> int \<Rightarrow> db \<Rightarrow>
   Exam option \<times> db" where
  "create_exam_for_student sample now student_id num_questions duration_minutes s =
     (let exam = \<lparr>e_id = next_id (map e_id (exams s)), e_student_id = student_id,
                  e_start_time = Some now, e_end_time = None, e_total_score = 0,
                  e_status = ''in-progress'', e_duration_minutes = duration_minutes\<rparr>;
          s1 = s\<lparr>exams := exams s @ [exam]\<rparr>;
          all_qs = questions s1
      in if all_qs = [] then (None, s1)
         else
           let selected = sample all_qs (min num_questions (length all_qs));
               s2 = fold (add_exam_question (e_id exam))
                      (zip [1..<Suc (length selected)] selected) s1
           in (Some exam,
               add_log now student_id
                 (''Started exam '' @ str_nat (e_id exam) @ '' with '' @
                  str_nat (length selected) @ '' questions'') s2))"

definition close_in_progress :: "datetime \<Rightarrow> nat \<Rightarrow> Exam \<Rightarrow> Exam" where
  "close_in_progress now student_id e =
     (if e_student_id e = student_id \<and> e_status e = ''in-progress''
      then e\<lparr>e_status := ''completed'', e_end_time := Some now\<rparr> else e)"

definition start_exam ::
  "(Question list \<Rightarrow> nat \<Rightarrow> Question list) \<Rightarrow> datetime \<Rightarrow> nat option \<Rightarrow> db \<Rightarrow>
   response \<times> db" where
  "start_exam sample now session s =
     (case session of
        None \<Rightarrow> (RedirectLogin, s)
      | Some student_id \<Rightarrow>
          let s1 = s\<lparr>exams := map (close_in_progress now student_id) (exams s)\<rparr>
          in (case create_exam_for_student sample now student_id 50 60 s1 of
                (None, s2) \<Rightarrow> (RedirectDashboard ''No questions available.'', s2)
              | (Some exam, s2) \<Rightarrow> (RedirectExamPage (e_id exam), s2)))"

definition in_progress_of :: "nat \<Rightarrow> db \<Rightarrow> Exam list" where
  "in_progress_of student_id s =
     filter (\<lambda>e. e_student_id e = student_id \<and> e_status e = ''in-progress'') (exams s)"

section \<open>Grading, auto-submit and the exam routes\<close>

text \<open>\<^verbatim>\<open>ans.student_answer or ""\<close>.\<close>

definition or_empty :: "string option \<Rightarrow> string" where
  "or_empty a = (case a of None \<Rightarrow> [] | Some txt \<Rightarrow> txt)"

text \<open>
  The loop of \<^verbatim>\<open>grade_exam\<close>, run over the \<^verbatim>\<open>exam_answers\<close> table: the rows of other
  exams are not in the query result and pass unchanged, a row whose question is
  missing is skipped by \<^verbatim>\<open>continue\<close>, every other row is graded in place and its score
  added to \<open>total_score\<close>.
\<close>

fun grade_loop :: "db \<Rightarrow> nat \<Rightarrow> ExamAnswer list \<Rightarrow> int \<Rightarrow> ExamAnswer list \<times> int" where
  "grade_loop s exam_id [] total_score = ([], total_score)"
| "grade_loop s exam_id (ans # rows) total_score =
     (if ea_exam_id ans \<noteq> exam_id
      then (case grade_loop s exam_id rows total_score of (rows', t) \<Rightarrow> (ans # rows', t))
      else
        case Question_get s (ea_question_id ans) of
          None \<Rightarrow> (case grade_loop s exam_id rows total_score of (rows', t) \<Rightarrow> (ans # rows', t))
        | Some q \<Rightarrow>
            (case grade_answer_text (or_empty (ea_student_answer ans)) (q_model_answer q) of
               (is_correct, score) \<Rightarrow>
                 (case grade_loop s exam_id rows (total_score + score) of
                    (rows', t) \<Rightarrow>
                      (ans\<lparr>ea_is_correct := is_correct, ea_score := score\<rparr> # rows', t))))"

text \<open>A change of the row a query returned first (\<^verbatim>\<open>get\<close>, \<^verbatim>\<open>first\<close>).\<close>

fun update_first :: "('a \<Rightarrow> bool) \<Rightarrow> ('a \<Rightarrow> 'a) \<Rightarrow> 'a list \<Rightarrow> 'a list" where
  "update_first P f [] = []"
| "update_first P f (x # xs) = (if P x then f x # xs else x # update_first P f xs)"

text \<open>
  \<^verbatim>\<open>Exam.query.get\<close> returns \<^verbatim>\<open>None\<close> for an unknown id, and the assignment to
  \<^verbatim>\<open>exam.total_score\<close> then raises before anything is committed.
\<close>

definition grade_exam :: "nat \<Rightarrow> db \<Rightarrow> (error + int) \<times> db" where
  "grade_exam exam_id s =
     (case grade_loop s exam_id (exam_answers s) 0 of
        (answers, total_score) \<Rightarrow>
          (case Exam_get s exam_id of
             None \<Rightarrow> (Inl AttributeError, s)
           | Some exam \<Rightarrow>
               (Inr total_score,
                s\<lparr>exam_answers := answers,
                  exams := update_first (\<lambda>e. e_id e = exam_id)
                     (\<lambda>e. e\<lparr>e_total_score := total_score, e_status := ''completed''\<rparr>)
                     (exams s)\<rparr>)))"

text \<open>
  Inserting \<^verbatim>\<open>ExamAnswer\<close> rows. The column \<^verbatim>\<open>student_id\<close> is declared
  \<^verbatim>\<open>nullable=False\<close>: a commit with a pending row without student is rejected with
  \<^verbatim>\<open>IntegrityError\<close> and stores nothing. The columns \<^verbatim>\<open>is_correct\<close> and \<^verbatim>\<open>score\<close> of a
  new row take their defaults, false and 0.
\<close>

definition insert_answer :: "ExamAnswer \<Rightarrow> db \<Rightarrow> db" where
  "insert_answer a s =
     s\<lparr>exam_answers := exam_answers s @ [a\<lparr>ea_id := next_id (map ea_id (exam_answers s))\<rparr>]\<rparr>"

definition commit_answers :: "ExamAnswer list \<Rightarrow> db \<Rightarrow> error + db" where
  "commit_answers pending s =
     (if list_ex (\<lambda>a. ea_student_id a = None) pending then Inl IntegrityError
      else Inr (fold insert_answer pending s))"

definition placeholder :: "nat \<Rightarrow> ExamQuestion \<Rightarrow> ExamAnswer" where
  "placeholder exam_id ql =
     \<lparr>ea_id = 0, ea_exam_id = exam_id, ea_question_id = eq_question_id ql,
      ea_student_id = None, ea_student_answer = Some [], ea_is_correct = False,
      ea_score = 0\<rparr>"

definition auto_submit_exam :: "datetime \<Rightarrow> Exam \<Rightarrow> db \<Rightarrow> (error + int) \<times> db" where
  "auto_submit_exam now exam s =
     (let q_links = filter (\<lambda>ql. eq_exam_id ql = e_id exam) (exam_questions s);
          existing_qids =
            set (map ea_question_id
                   (filter (\<lambda>a. ea_exam_id a = e_id exam) (exam_answers s)));
          pending = map (placeholder (e_id exam))
                      (filter (\<lambda>ql. eq_question_id ql \<notin> existing_qids) q_links)
      in case commit_answers pending s of
           Inl err \<Rightarrow> (Inl err, s)
         | Inr s1 \<Rightarrow>
             (case grade_exam (e_id exam) s1 of
                (Inl err, s2) \<Rightarrow> (Inl err, s2)
              | (Inr total_score, s2) \<Rightarrow>
                  (case Exam_get s2 (e_id exam) of
                     None \<Rightarrow> (Inl AttributeError, s2)
                   | Some exam' \<Rightarrow>
                       (Inr total_score,
                        add_log now (e_student_id exam')
                          (''Exam '' @ str_nat (e_id exam) @ '' auto-submitted with score '' @
                           str_int total_score)
                          (s2\<lparr>exams := update_first (\<lambda>e. e_id e = e_id exam)
                                (\<lambda>e. e\<lparr>e_status := ''auto-submitted'', e_end_time := Some now,
                                       e_total_score := total_score\<rparr>)
                                (exams s2)\<rparr>)))))"

text \<open>
  \<^verbatim>\<open>int((limit - now).total_seconds())\<close>: \<^verbatim>\<open>int\<close> truncates towards zero. The float
  \<^verbatim>\<open>total_seconds()\<close> is exact to the microsecond for differences of less than 270
  years, and the model divides the integer number of microseconds.
\<close>

definition int_total_seconds :: "int \<Rightarrow> int" where
  "int_total_seconds d = (if d < 0 then - ((- d) div 1000000) else d div 1000000)"

text \<open>The argument \<open>session\<close> is \<^verbatim>\<open>session.get("student_id")\<close>.\<close>

definition exam_page :: "nat option \<Rightarrow> nat \<Rightarrow> datetime \<Rightarrow> db \<Rightarrow> (error + response) \<times> db" where
  "exam_page session exam_id now s =
     (case session of
        None \<Rightarrow> (Inr RedirectLogin, s)
      | Some student_id \<Rightarrow>
          (case Exam_get s exam_id of
             None \<Rightarrow> (Inr Abort404, s)
           | Some exam \<Rightarrow>
               if e_student_id exam \<noteq> student_id then (Inr Abort403, s)
               else
                 (case e_start_time exam of
                    None \<Rightarrow> (Inl TypeError, s)
                  | Some start \<Rightarrow>
                      let limit = start + timedelta_minutes (e_duration_minutes exam);
                          remaining = int_total_seconds (limit - now)
                      in if remaining < 0
                         then
                           if e_status exam = ''in-progress''
                           then (case auto_submit_exam now exam s of
                                   (Inl err, s') \<Rightarrow> (Inl err, s')
                                 | (Inr total_score, s') \<Rightarrow> (Inr (RedirectResults exam_id), s'))
                           else (Inr (RedirectResults exam_id), s)
                         else (Inr (RenderExam exam_id remaining), s))))"

text \<open>
  The upsert of \<^verbatim>\<open>submit_exam\<close> for one payload entry. The session autoflushes before
  each query, so an entry sees the rows added by the entries before it.
\<close>

definition upsert_answer :: "nat \<Rightarrow> nat \<Rightarrow> answer_item \<Rightarrow> db \<Rightarrow> db" where
  "upsert_answer exam_id student_id item s =
     (case item_question_id item of
        None \<Rightarrow> s
      | Some qid \<Rightarrow>
          if list_ex (\<lambda>a. ea_exam_id a = exam_id \<and> ea_question_id a = qid) (exam_answers s)
          then s\<lparr>exam_answers :=
                  update_first (\<lambda>a. ea_exam_id a = exam_id \<and> ea_question_id a = qid)
                    (\<lambda>a. a\<lparr>ea_student_answer := item_answer item\<rparr>) (exam_answers s)\<rparr>
          else insert_answer
                 \<lparr>ea_id = 0, ea_exam_id = exam_id, ea_question_id = qid,
                  ea_student_id = Some student_id, ea_student_answer = item_answer item,
                  ea_is_correct = False, ea_score = 0\<rparr> s)"

text \<open>
  The grading loop written out in \<^verbatim>\<open>submit_exam\<close>. It has no test for a missing
  question: \<^verbatim>\<open>q.model_answer\<close> raises \<^verbatim>\<open>AttributeError\<close> on \<^verbatim>\<open>None\<close>.
\<close>

fun submit_grade_loop ::
  "db \<Rightarrow> nat \<Rightarrow> ExamAnswer list \<Rightarrow> int \<Rightarrow> error + ExamAnswer list \<times> int" where
  "submit_grade_loop s exam_id [] total_score = Inr ([], total_score)"
| "submit_grade_loop s exam_id (ans # rows) total_score =
     (if ea_exam_id ans \<noteq> exam_id
      then (case submit_grade_loop s exam_id rows total_score of
              Inl err \<Rightarrow> Inl err
            | Inr (rows', t) \<Rightarrow> Inr (ans # rows', t))
      else
        case Question_get s (ea_question_id ans) of
          None \<Rightarrow> Inl AttributeError
        | Some q \<Rightarrow>
            (case grade_answer_text (or_empty (ea_student_answer ans)) (q_model_answer q) of
               (is_correct, score) \<Rightarrow>
                 (case submit_grade_loop s exam_id rows (total_score + score) of
                    Inl err \<Rightarrow> Inl err
                  | Inr (rows', t) \<Rightarrow>
                      Inr (ans\<lparr>ea_is_correct := is_correct, ea_score := score\<rparr> # rows', t))))"

text \<open>
  \<open>data\<close> is \<open>None\<close> for a payload that is empty or has no \<^verbatim>\<open>answers\<close> key. The
  answers are committed before the grading loop starts, so an exception in the loop
  leaves them stored and loses only the grades.
\<close>

definition submit_exam ::
  "nat option \<Rightarrow> nat \<Rightarrow> datetime \<Rightarrow> answer_item list option \<Rightarrow> db \<Rightarrow>
   (error + response) \<times> db" where
  "submit_exam session exam_id now data s =
     (case session of
        None \<Rightarrow> (Inr RedirectLogin, s)
      | Some student_id \<Rightarrow>
          (case Exam_get s exam_id of
             None \<Rightarrow> (Inr Abort404, s)
           | Some exam \<Rightarrow>
               if e_student_id exam \<noteq> student_id then (Inr Abort403, s)
               else if \<not> check_time_allowed exam now
               then (case auto_submit_exam now exam s of
                       (Inl err, s') \<Rightarrow> (Inl err, s')
                     | (Inr total_score, s') \<Rightarrow> (Inr (JsonAutoSubmitted exam_id), s'))
               else
                 (case data of
                    None \<Rightarrow> (Inr JsonInvalidPayload, s)
                  | Some answers \<Rightarrow>
                      let s1 = fold (upsert_answer exam_id (e_student_id exam)) answers s
                      in (case submit_grade_loop s1 exam_id (exam_answers s1) 0 of
                            Inl err \<Rightarrow> (Inl err, s1)
                          | Inr (rows, total_score) \<Rightarrow>
                              (Inr (JsonGraded total_score exam_id),
                               s1\<lparr>exam_answers := rows,
                                  exams := update_first (\<lambda>e. e_id e = exam_id)
                                    (\<lambda>e. e\<lparr>e_total_score := total_score,
                                           e_status := ''completed''\<rparr>)
                                    (exams s1)\<rparr>)))))"



definition score_sum :: "ExamAnswer list \<Rightarrow> int" where
  "score_sum rows = sum_list (map ea_score rows)"

text \<open>
  Three abbreviations for the proofs about the grading loop: the rows the loop grades
  (\<open>gradable\<close>: they belong to the exam and their question exists), what it does to
  such a row (\<open>grade_row\<close>), and what it leaves in the table for any row (\<open>graded\<close>).
\<close>

definition gradable :: "db \<Rightarrow> nat \<Rightarrow> ExamAnswer \<Rightarrow> bool" where
  "gradable s exam_id a \<longleftrightarrow> ea_exam_id a = exam_id \<and> Question_get s (ea_question_id a) \<noteq> None"

definition grade_row :: "db \<Rightarrow> ExamAnswer \<Rightarrow> ExamAnswer" where
  "grade_row s a =
     (case Question_get s (ea_question_id a) of
        None \<Rightarrow> a
      | Some q \<Rightarrow>
          (case grade_answer_text (or_empty (ea_student_answer a)) (q_model_answer q) of
             (is_correct, score) \<Rightarrow> a\<lparr>ea_is_correct := is_correct, ea_score := score\<rparr>))"

definition graded :: "db \<Rightarrow> nat \<Rightarrow> ExamAnswer \<Rightarrow> ExamAnswer" where
  "graded s exam_id a = (if ea_exam_id a = exam_id then grade_row s a else a)"

text \<open>
  Further abbreviations for the proofs: the links of an exam without an answer record
  (for each of them \<^verbatim>\<open>auto_submit_exam\<close> builds a placeholder), the total the grading
  loop computes on a store, the exam table after a successful Auto-submit, and the
  pairs (exam, question) that have an answer record.
\<close>

definition missing_links :: "nat \<Rightarrow> db \<Rightarrow> ExamQuestion list" where
  "missing_links exam_id s =
     filter (\<lambda>ql. eq_question_id ql \<notin>
                set (map ea_question_id (filter (\<lambda>a. ea_exam_id a = exam_id) (exam_answers s))))
       (filter (\<lambda>ql. eq_exam_id ql = exam_id) (exam_questions s))"

definition auto_total :: "nat \<Rightarrow> db \<Rightarrow> int" where
  "auto_total exam_id s =
     score_sum (map (grade_row s) (filter (gradable s exam_id) (exam_answers s)))"

definition auto_submitted :: "datetime \<Rightarrow> nat \<Rightarrow> db \<Rightarrow> Exam list" where
  "auto_submitted now exam_id s =
     update_first (\<lambda>e. e_id e = exam_id)
       (\<lambda>e. e\<lparr>e_status := ''auto-submitted'', e_end_time := Some now,
              e_total_score := auto_total exam_id s\<rparr>)
       (update_first (\<lambda>e. e_id e = exam_id)
          (\<lambda>e. e\<lparr>e_total_score := auto_total exam_id s, e_status := ''completed''\<rparr>)
          (exams s))"


text \<open>
  The student of an answer record. \<open>owner_of es exam_id\<close> is the student of the exam
  \<^verbatim>\<open>Exam.query.get(exam_id)\<close> finds in the table \<open>es\<close>. A store satisfies
  \<open>answers_carry_owner\<close> when every answer record in it has a student, and that
  student is the owner of the exam the record belongs to.
\<close>

definition owner_of :: "Exam list \<Rightarrow> nat \<Rightarrow> nat option" where
  "owner_of es exam_id = map_option e_student_id (find (\<lambda>e. e_id e = exam_id) es)"

definition carries_owner :: "Exam list \<Rightarrow> ExamAnswer \<Rightarrow> bool" where
  "carries_owner es a \<longleftrightarrow>
     ea_student_id a \<noteq> None \<and> owner_of es (ea_exam_id a) = ea_student_id a"

definition answers_carry_owner :: "db \<Rightarrow> bool" where
  "answers_carry_owner s \<longleftrightarrow> list_all (carries_owner (exams s)) (exam_answers s)"

section \<open>Concrete stores used to run the model\<close>

definition first_k :: "Question list \<Rightarrow> nat \<Rightarrow> Question list" where
  "first_k qs k = take k qs"

definition empty_store :: db where
  "empty_store = \<lparr>questions = [], exams = [], exam_questions = [], exam_answers = [],
                   audit_logs = []\<rparr>"

definition store_two_open :: db where
  "store_two_open =
     \<lparr>questions = [\<lparr>q_id = 1, q_question_text = ''Capital of France?'',
                     q_model_answer = ''Paris''\<rparr>],
      exams = [\<lparr>e_id = 1, e_student_id = 1, e_start_time = Some 0, e_end_time = None,
                 e_total_score = 0, e_status = ''in-progress'', e_duration_minutes = 60\<rparr>,
               \<lparr>e_id = 2, e_student_id = 2, e_start_time = Some 0, e_end_time = None,
                 e_total_score = 0, e_status = ''in-progress'', e_duration_minutes = 60\<rparr>],
      exam_questions = [], exam_answers = [], audit_logs = []\<rparr>"

definition exam_one :: Exam where
  "exam_one = \<lparr>e_id = 1, e_student_id = 1, e_start_time = Some 0, e_end_time = None,
                e_total_score = 0, e_status = ''in-progress'', e_duration_minutes = 60\<rparr>"

text \<open>Student 1 sits exam 1 with one question and has answered nothing yet.\<close>

definition store_unanswered :: db where
  "store_unanswered =
     \<lparr>questions = [\<lparr>q_id = 1, q_question_text = ''Capital of France?'',
                     q_model_answer = ''Paris''\<rparr>],
      exams = [exam_one],
      exam_questions = [\<lparr>eq_id = 1, eq_exam_id = 1, eq_question_id = 1,
                          eq_question_order = 1\<rparr>],
      exam_answers = [], audit_logs = []\<rparr>"


text \<open>
  Exam 1 with its one question answered but not graded; and exam 1 in a pool of two
  questions of which only question 1 is linked to the exam.
\<close>

definition store_answered :: db where
  "store_answered =
     store_unanswered\<lparr>exam_answers :=
       [\<lparr>ea_id = 1, ea_exam_id = 1, ea_question_id = 1, ea_student_id = Some 1,
         ea_student_answer = Some ''paris'', ea_is_correct = False, ea_score = 0\<rparr>]\<rparr>"


section \<open>Properties of the exam timer\<close>

text \<open>
  Claim C7. For every exam instance and every time \<open>now\<close>, the timer policy answers true
  exactly when \<open>now\<close> is at most the start time plus the allowed duration (the boundary
  instant itself is still allowed), and it answers false when the instance has no start
  time.
\<close>

theorem check_time_allowed_spec:
  "(e_start_time exam = None \<longrightarrow> \<not> check_time_allowed exam now) \<and>
   (\<forall>start. e_start_time exam = Some start \<longrightarrow>
      (check_time_allowed exam now \<longleftrightarrow>
         now \<le> start + timedelta_minutes (e_duration_minutes exam)))"
  by (simp add: check_time_allowed_def)

theorem check_time_allowed_spec_witness:
  "e_start_time \<lparr>e_id = 1, e_student_id = 1, e_start_time = Some 0, e_end_time = None,
       e_total_score = 0, e_status = ''in-progress'', e_duration_minutes = 60\<rparr> = Some 0 \<and>
   check_time_allowed \<lparr>e_id = 1, e_student_id = 1, e_start_time = Some 0, e_end_time = None,
       e_total_score = 0, e_status = ''in-progress'', e_duration_minutes = 60\<rparr> 3600000000 \<and>
   \<not> check_time_allowed \<lparr>e_id = 1, e_student_id = 1, e_start_time = Some 0, e_end_time = None,
       e_total_score = 0, e_status = ''in-progress'', e_duration_minutes = 60\<rparr> 3600000001 \<and>
   \<not> check_time_allowed \<lparr>e_id = 1, e_student_id = 1, e_start_time = None, e_end_time = None,
       e_total_score = 0, e_status = ''in-progress'', e_duration_minutes = 60\<rparr> 0"
  using
    check_time_allowed_spec [of "\<lparr>e_id = 1, e_student_id = 1, e_start_time = Some 0,
       e_end_time = None, e_total_score = 0, e_status = ''in-progress'',
       e_duration_minutes = 60\<rparr>" 3600000000]
    check_time_allowed_spec [of "\<lparr>e_id = 1, e_student_id = 1, e_start_time = Some 0,
       e_end_time = None, e_total_score = 0, e_status = ''in-progress'',
       e_duration_minutes = 60\<rparr>" 3600000001]
    check_time_allowed_spec [of "\<lparr>e_id = 1, e_student_id = 1, e_start_time = None,
       e_end_time = None, e_total_score = 0, e_status = ''in-progress'',
       e_duration_minutes = 60\<rparr>" 0]
  by (simp add: timedelta_minutes_def)

section \<open>Properties of the Start operation\<close>

lemma exams_fold_add_exam_question:
  "exams (fold (add_exam_question exam_id) ps s) = exams s"
  by (induction ps arbitrary: s) (simp_all add: add_exam_question_def split: prod.splits)

lemma exams_create_exam_for_student:
  "exams (snd (create_exam_for_student sample now student_id n d s)) =
     exams s @ [\<lparr>e_id = next_id (map e_id (exams s)), e_student_id = student_id,
                 e_start_time = Some now, e_end_time = None, e_total_score = 0,
                 e_status = ''in-progress'', e_duration_minutes = d\<rparr>]"
  by (simp add: create_exam_for_student_def Let_def add_log_def exams_fold_add_exam_question)

lemma no_in_progress_after_close:
  "filter (\<lambda>e. e_student_id e = student_id \<and> e_status e = ''in-progress'')
     (map (close_in_progress now student_id) es) = []"
  by (induction es) (simp_all add: close_in_progress_def)

lemma exams_start_exam:
  "exams (snd (start_exam sample now (Some student_id) s)) =
     map (close_in_progress now student_id) (exams s) @
     [\<lparr>e_id = next_id (map e_id (map (close_in_progress now student_id) (exams s))),
       e_student_id = student_id, e_start_time = Some now, e_end_time = None,
       e_total_score = 0, e_status = ''in-progress'', e_duration_minutes = 60\<rparr>]"
proof -
  let ?s1 = "s\<lparr>exams := map (close_in_progress now student_id) (exams s)\<rparr>"
  obtain ex s2 where c: "create_exam_for_student sample now student_id 50 60 ?s1 = (ex, s2)"
    by (cases "create_exam_for_student sample now student_id 50 60 ?s1")
  have "exams s2 = exams (snd (create_exam_for_student sample now student_id 50 60 ?s1))"
    by (simp add: c)
  also have "\<dots> = exams ?s1 @
     [\<lparr>e_id = next_id (map e_id (exams ?s1)), e_student_id = student_id,
       e_start_time = Some now, e_end_time = None, e_total_score = 0,
       e_status = ''in-progress'', e_duration_minutes = 60\<rparr>]"
    by (rule exams_create_exam_for_student)
  finally have e2: "exams s2 = exams ?s1 @
     [\<lparr>e_id = next_id (map e_id (exams ?s1)), e_student_id = student_id,
       e_start_time = Some now, e_end_time = None, e_total_score = 0,
       e_status = ''in-progress'', e_duration_minutes = 60\<rparr>]" .
  have "snd (start_exam sample now (Some student_id) s) = s2"
    by (cases ex) (simp_all add: start_exam_def c)
  then show ?thesis
    using e2 by simp
qed

text \<open>
  Claim C6. For every student and every prior store, after the Start operation the
  student has at most one exam instance in the in-progress state: every instance of
  that student that was in progress before is now completed and carries an end time.
\<close>

theorem start_exam_at_most_one_in_progress:
  assumes "start_exam sample now (Some student_id) s = (r, s')"
  shows "length (in_progress_of student_id s') \<le> 1 \<and>
         (\<forall>i < length (exams s).
            e_student_id (exams s ! i) = student_id \<and>
            e_status (exams s ! i) = ''in-progress'' \<longrightarrow>
            i < length (exams s') \<and>
            exams s' ! i = (exams s ! i)\<lparr>e_status := ''completed'', e_end_time := Some now\<rparr>)"
proof -
  have s': "s' = snd (start_exam sample now (Some student_id) s)"
    using assms by simp
  have ex: "exams s' = map (close_in_progress now student_id) (exams s) @
     [\<lparr>e_id = next_id (map e_id (map (close_in_progress now student_id) (exams s))),
       e_student_id = student_id, e_start_time = Some now, e_end_time = None,
       e_total_score = 0, e_status = ''in-progress'', e_duration_minutes = 60\<rparr>]"
    unfolding s' by (rule exams_start_exam)
  have "length (in_progress_of student_id s') \<le> 1"
    by (simp add: in_progress_of_def ex no_in_progress_after_close)
  moreover have "\<forall>i < length (exams s).
            e_student_id (exams s ! i) = student_id \<and>
            e_status (exams s ! i) = ''in-progress'' \<longrightarrow>
            i < length (exams s') \<and>
            exams s' ! i = (exams s ! i)\<lparr>e_status := ''completed'', e_end_time := Some now\<rparr>"
    by (simp add: ex nth_append close_in_progress_def)
  ultimately show ?thesis
    by simp
qed

theorem start_exam_at_most_one_in_progress_witness:
  "length (in_progress_of 1 (snd (start_exam first_k 5000 (Some 1) store_two_open))) \<le> 1 \<and>
   e_student_id (exams store_two_open ! 0) = 1 \<and>
   e_status (exams store_two_open ! 0) = ''in-progress'' \<and>
   exams (snd (start_exam first_k 5000 (Some 1) store_two_open)) ! 0 =
     (exams store_two_open ! 0)\<lparr>e_status := ''completed'', e_end_time := Some 5000\<rparr>"
  using start_exam_at_most_one_in_progress
    [of first_k 5000 1 store_two_open
        "fst (start_exam first_k 5000 (Some 1) store_two_open)"
        "snd (start_exam first_k 5000 (Some 1) store_two_open)"]
  by (simp add: store_two_open_def)

text \<open>
  Claim C2. With an empty question pool the Start operation reports that no questions
  are available, and no exam instance should have been stored. Run on the empty store,
  \<^verbatim>\<open>start_exam\<close> does report the failure, but the store it leaves holds a new
  in-progress \<^verbatim>\<open>Exam\<close> row: \<^verbatim>\<open>create_exam_for_student\<close> commits the row before it
  looks at the pool.
\<close>

theorem start_exam_empty_pool_keeps_exam_row:
  "start_exam first_k 5000 (Some 1) empty_store =
     (RedirectDashboard ''No questions available.'',
      empty_store\<lparr>exams :=
        [\<lparr>e_id = 1, e_student_id = 1, e_start_time = Some 5000, e_end_time = None,
          e_total_score = 0, e_status = ''in-progress'', e_duration_minutes = 60\<rparr>]\<rparr>)"
  by (simp add: start_exam_def create_exam_for_student_def empty_store_def next_id_def)

section \<open>Properties of the similarity grader\<close>

text \<open>
  Matching a text with itself. Along the diagonal the table \<^verbatim>\<open>j2len\<close> holds the run
  lengths \<open>drun\<close>, no entry of a row exceeds the diagonal entry, and the positions are
  visited in ascending order: so the best block is only ever replaced by a block on the
  diagonal, and the extension loops, which ignore popularity, stretch it over the whole
  text.
\<close>

lemma drun_dprev: "drun s i = (if b2j_get s (s ! i) = [] then 0 else Suc (dprev s i))"
  by (cases i) (simp_all add: dprev_def)

lemma dprev_Suc: "dprev s (Suc i) = drun s i"
  by (simp add: dprev_def)

lemma drun_le: "drun s i \<le> Suc i"
  by (induction i) auto

lemma b2j_get_mem: "j \<in> set (b2j_get s x) \<Longrightarrow> j < length s \<and> s ! j = x"
  by (auto simp: b2j_get_def indices_of_def Let_def split: if_splits)

lemma b2j_get_sorted: "sorted_wrt (<) (b2j_get s x)"
  by (simp add: b2j_get_def indices_of_def Let_def sorted_wrt_filter)

lemma b2j_get_self: "i < length s \<Longrightarrow> b2j_get s (s ! i) \<noteq> [] \<Longrightarrow> i \<in> set (b2j_get s (s ! i))"
  by (auto simp: b2j_get_def indices_of_def Let_def split: if_splits)

lemma j2lenget_Suc: "j2lenget m (Suc i) = (case m i of None \<Rightarrow> 0 | Some v \<Rightarrow> v)"
  by (simp add: j2lenget_def)

lemma scan_row_diag:
  assumes pr1: "\<forall>j v. j2len j = Some v \<longrightarrow> v \<le> drun s j \<and> v \<le> dprev s i"
    and pr2: "j2lenget j2len i = dprev s i"
  shows "sorted_wrt (<) js \<Longrightarrow>
    (\<forall>j\<in>set js. j < length s \<and> s ! j = s ! i \<and> b2j_get s (s ! i) \<noteq> []) \<Longrightarrow>
    besti = bestj \<Longrightarrow> besti + bestsize \<le> Suc i \<Longrightarrow> (\<forall>j<i. drun s j \<le> bestsize) \<Longrightarrow>
    (i \<in> set js \<or> (drun s i \<le> bestsize \<and> j2lenget new (Suc i) = drun s i)) \<Longrightarrow>
    (\<forall>j v. new j = Some v \<longrightarrow> v \<le> drun s j \<and> v \<le> drun s i) \<Longrightarrow>
    scan_row 0 (length s) i j2len js (new, besti, bestj, bestsize) = (new', bi, bj, bs) \<Longrightarrow>
    bi = bj \<and> bi + bs \<le> Suc i \<and> (\<forall>j<Suc i. drun s j \<le> bs) \<and>
    j2lenget new' (Suc i) = drun s i \<and>
    (\<forall>j v. new' j = Some v \<longrightarrow> v \<le> drun s j \<and> v \<le> drun s i)"
proof (induction js arbitrary: new besti bestj bestsize)
  case Nil
  then show ?case by (auto simp: less_Suc_eq)
next
  case (Cons j js)
  let ?k = "j2lenget j2len j + 1"
  let ?new = "new(j \<mapsto> ?k)"
  have jprops: "j < length s" "s ! j = s ! i" "b2j_get s (s ! i) \<noteq> []"
    using Cons.prems(2) by auto
  have dj: "drun s j = Suc (dprev s j)" and di: "drun s i = Suc (dprev s i)"
    using jprops by (simp_all add: drun_dprev)
  have kj: "?k \<le> drun s j"
    using pr1 dj by (auto simp: j2lenget_def dprev_def split: option.splits)
  have ki: "?k \<le> drun s i"
    using pr1 di by (auto simp: j2lenget_def split: option.splits)
  have newb: "\<forall>j' v. ?new j' = Some v \<longrightarrow> v \<le> drun s j' \<and> v \<le> drun s i"
    using Cons.prems(7) kj ki by auto
  have sorted: "sorted_wrt (<) js" and gt: "\<forall>x\<in>set js. j < x"
    using Cons.prems(1) by auto
  have rest: "\<forall>j\<in>set js. j < length s \<and> s ! j = s ! i \<and> b2j_get s (s ! i) \<noteq> []"
    using Cons.prems(2) by auto
  have step: "scan_row 0 (length s) i j2len (j # js) (new, besti, bestj, bestsize) =
        (if bestsize < ?k
         then scan_row 0 (length s) i j2len js (?new, i + 1 - ?k, j + 1 - ?k, ?k)
         else scan_row 0 (length s) i j2len js (?new, besti, bestj, bestsize))"
    using jprops(1) by (simp add: Let_def)
  consider (eq) "j = i" | (lt) "j < i" | (gt) "i < j" by arith
  then show ?case
  proof cases
    case eq
    have keq: "?k = drun s i"
      using pr2 di eq by simp
    have notin: "i \<notin> set js"
      using gt eq by auto
    have ji: "j2lenget ?new (Suc i) = drun s i"
      using eq keq by (simp add: j2lenget_Suc)
    show ?thesis
    proof (cases "bestsize < ?k")
      case True
      have run: "scan_row 0 (length s) i j2len js (?new, i + 1 - ?k, j + 1 - ?k, ?k) = (new', bi, bj, bs)"
        using Cons.prems(8) step True by simp
      have a1: "i + 1 - ?k = j + 1 - ?k" using eq by simp
      have a2: "i + 1 - ?k + ?k \<le> Suc i" using keq drun_le[of s i] by arith
      have a3: "\<forall>j<i. drun s j \<le> ?k" using Cons.prems(5) True by auto
      have a4: "i \<in> set js \<or> (drun s i \<le> ?k \<and> j2lenget ?new (Suc i) = drun s i)"
        using keq ji by simp
      show ?thesis
        using Cons.IH[OF sorted rest a1 a2 a3 a4 newb run] .
    next
      case False
      have run: "scan_row 0 (length s) i j2len js (?new, besti, bestj, bestsize) = (new', bi, bj, bs)"
        using Cons.prems(8) step False by simp
      have a4: "i \<in> set js \<or> (drun s i \<le> bestsize \<and> j2lenget ?new (Suc i) = drun s i)"
        using keq ji False by simp
      show ?thesis
        using Cons.IH[OF sorted rest Cons.prems(3,4,5) a4 newb run] .
    qed
  next
    case lt
    have "?k \<le> bestsize"
      using kj Cons.prems(5) lt by (meson le_trans)
    then have run: "scan_row 0 (length s) i j2len js (?new, besti, bestj, bestsize) = (new', bi, bj, bs)"
      using Cons.prems(8) step by simp
    have a4: "i \<in> set js \<or> (drun s i \<le> bestsize \<and> j2lenget ?new (Suc i) = drun s i)"
      using Cons.prems(6) lt by (auto simp: j2lenget_Suc)
    show ?thesis
      using Cons.IH[OF sorted rest Cons.prems(3,4,5) a4 newb run] .
  next
    case gt
    have notin: "i \<notin> set (j # js)"
      using gt \<open>\<forall>x\<in>set js. j < x\<close> by auto
    then have d: "drun s i \<le> bestsize" "j2lenget new (Suc i) = drun s i"
      using Cons.prems(6) by auto
    have "?k \<le> bestsize"
      using ki d(1) by (meson le_trans)
    then have run: "scan_row 0 (length s) i j2len js (?new, besti, bestj, bestsize) = (new', bi, bj, bs)"
      using Cons.prems(8) step by simp
    have a4: "i \<in> set js \<or> (drun s i \<le> bestsize \<and> j2lenget ?new (Suc i) = drun s i)"
      using d gt by (auto simp: j2lenget_Suc)
    show ?thesis
      using Cons.IH[OF sorted rest Cons.prems(3,4,5) a4 newb run] .
  qed
qed

lemma scan_rows_diag:
  "m \<le> length s \<Longrightarrow>
   fold (scan_step s s 0 (length s)) [0..<m] (Map.empty, 0, 0, 0) = (j2len, bi, bj, bs) \<Longrightarrow>
   bi = bj \<and> bi + bs \<le> m \<and> (\<forall>j<m. drun s j \<le> bs) \<and> j2lenget j2len m = dprev s m \<and>
   (\<forall>j v. j2len j = Some v \<longrightarrow> v \<le> drun s j \<and> v \<le> dprev s m)"
proof (induction m arbitrary: j2len bi bj bs)
  case 0
  then show ?case by (auto simp: j2lenget_def dprev_def)
next
  case (Suc m)
  obtain j0 i0 jj0 s0 where
    st: "fold (scan_step s s 0 (length s)) [0..<m] (Map.empty, 0, 0, 0) = (j0, i0, jj0, s0)"
    by (metis prod_cases4)
  have m: "m \<le> length s" "m < length s" using Suc.prems(1) by simp_all
  have inv: "i0 = jj0" "i0 + s0 \<le> m" "\<forall>j<m. drun s j \<le> s0" "j2lenget j0 m = dprev s m"
    "\<forall>j v. j0 j = Some v \<longrightarrow> v \<le> drun s j \<and> v \<le> dprev s m"
    using Suc.IH[OF m(1) st] by simp_all
  have "scan_step s s 0 (length s) m (j0, i0, jj0, s0) = (j2len, bi, bj, bs)"
    using Suc.prems(2) st by simp
  then have run: "scan_row 0 (length s) m j0 (b2j_get s (s ! m)) (Map.empty, i0, jj0, s0) =
      (j2len, bi, bj, bs)"
    by (simp add: scan_step_def)
  have c2: "\<forall>j\<in>set (b2j_get s (s ! m)). j < length s \<and> s ! j = s ! m \<and> b2j_get s (s ! m) \<noteq> []"
    using b2j_get_mem[of _ s "s ! m"] by auto
  have c4: "i0 + s0 \<le> Suc m" using inv(2) by simp
  have c6: "m \<in> set (b2j_get s (s ! m)) \<or>
      (drun s m \<le> s0 \<and> j2lenget Map.empty (Suc m) = drun s m)"
    using b2j_get_self[OF m(2)] by (auto simp: drun_dprev j2lenget_def)
  have c7: "\<forall>j v. Map.empty j = Some v \<longrightarrow> v \<le> drun s j \<and> v \<le> drun s m"
    by simp
  show ?case
    using scan_row_diag[OF inv(5) inv(4) b2j_get_sorted c2 inv(1) c4 inv(3) c6 c7 run]
    by (simp add: dprev_Suc)
qed

lemma extend_left_diag: "extend_left s s 0 0 (b, b, k) = (0, 0, b + k)"
proof (induction b arbitrary: k)
  case 0
  then show ?case by (simp add: extend_left.simps)
next
  case (Suc b)
  have "extend_left s s 0 0 (Suc b, Suc b, k) = extend_left s s 0 0 (b, b, k + 1)"
    by (subst extend_left.simps) simp
  then show ?case using Suc[of "k + 1"] by simp
qed

lemma extend_right_diag: "t \<le> n \<Longrightarrow> extend_right s s n n (0, 0, t) = (0, 0, n)"
proof (induction "n - t" arbitrary: t)
  case 0
  then show ?case by (simp add: extend_right.simps)
next
  case (Suc d)
  have "t < n" using Suc.hyps(2) by arith
  then have "extend_right s s n n (0, 0, t) = extend_right s s n n (0, 0, t + 1)"
    by (subst extend_right.simps) simp
  moreover have "extend_right s s n n (0, 0, t + 1) = (0, 0, n)"
    using Suc.hyps(1)[of "t + 1"] Suc.hyps(2) by simp
  ultimately show ?case by simp
qed

lemma find_longest_match_self:
  "find_longest_match s s 0 (length s) 0 (length s) = (0, 0, length s)"
proof -
  obtain j0 i0 jj0 s0 where
    st: "fold (scan_step s s 0 (length s)) [0..<length s] (Map.empty, 0, 0, 0) = (j0, i0, jj0, s0)"
    by (metis prod_cases4)
  have inv: "i0 = jj0" "i0 + s0 \<le> length s"
    using scan_rows_diag[OF le_refl st] by simp_all
  show ?thesis
    using st inv by (simp add: find_longest_match_def extend_left_diag extend_right_diag)
qed

lemma matching_loop_self:
  "matching_loop s s [(0, length s, 0, length s)] [] = (if s = [] then [] else [(0, 0, length s)])"
  by (simp add: find_longest_match_self)

lemma ratio_self: "ratio s s = 1"
  by (simp add: ratio_def get_matching_blocks_def matching_loop_self calculate_ratio_def
        del: matching_loop.simps)

lemma grade_same_normal_form:
  "x \<noteq> [] \<Longrightarrow> lower (strip y) = lower (strip x) \<Longrightarrow> grade_answer_text x y = (True, 1)"
  by (simp add: grade_answer_text_def ratio_self Let_def)

text \<open>
  Claim C4, as amended. For every non-empty string \<open>x\<close>, grading \<open>x\<close> against the
  identical reference answer \<open>x\<close> returns (true, 1).
\<close>

theorem grade_answer_text_identical:
  "x \<noteq> [] \<Longrightarrow> grade_answer_text x x = (True, 1)"
  by (rule grade_same_normal_form) simp_all

theorem grade_answer_text_identical_witness:
  "''Paris'' \<noteq> [] \<and> grade_answer_text ''Paris'' ''Paris'' = (True, 1)"
  using grade_answer_text_identical [of "''Paris''"] by simp

text \<open>
  Claim C4 as stated covers the empty string, and there it fails: an empty submission
  is graded (false, 0) before any comparison is made, also against an empty reference.
\<close>

theorem grade_answer_text_identical_empty:
  "grade_answer_text [] [] \<noteq> (True, 1)"
  by (simp add: grade_answer_text_def)




lemma ratio_aba_babba: "ratio ''aba'' ''babba'' = 3 / 4 \<and> ratio ''babba'' ''aba'' = 1 / 2"
  by code_simp

text \<open>
  The guard on the empty submission is one-sided as well: a reference that is only
  white space is matched by the empty normal form, an empty submission never is.
\<close>

lemma grade_answer_text_guard_one_sided:
  "grade_answer_text [CHR '' ''] [] = (True, 1) \<and>
   grade_answer_text [] [CHR '' ''] = (False, 0)"
  by code_simp

section \<open>Auto-submit and the exam page\<close>

text \<open>
  \<^verbatim>\<open>auto_submit_exam\<close> builds its placeholder without \<^verbatim>\<open>student_id\<close>, unlike the
  insert of \<^verbatim>\<open>submit_exam\<close>. On exam 1 with its one unanswered question the commit of
  the placeholder is rejected, and Auto-submit ends in \<^verbatim>\<open>IntegrityError\<close> with nothing
  stored and nothing graded.
\<close>

lemma auto_submit_exam_placeholder_without_student:
  "ea_student_id (placeholder 1 \<lparr>eq_id = 1, eq_exam_id = 1, eq_question_id = 1,
      eq_question_order = 1\<rparr>) = None \<and>
   auto_submit_exam 3660000000 exam_one store_unanswered =
     (Inl IntegrityError, store_unanswered)"
  by (simp add: auto_submit_exam_def commit_answers_def placeholder_def
      store_unanswered_def exam_one_def)

text \<open>
  Claim C8. Viewing an in-progress exam at any time strictly after its limit should
  trigger Auto-submit and redirect to the results. Half a second after the limit of
  exam 1 the timer policy already denies the exam, but \<^verbatim>\<open>exam_page\<close> computes the
  remaining time as 0, because \<^verbatim>\<open>int\<close> truncates \<open>-0.5\<close> towards zero, and renders the
  exam without touching the store.
\<close>

theorem exam_page_renders_expired_exam:
  "\<not> check_time_allowed exam_one 3600500000 \<and>
   exam_page (Some 1) 1 3600500000 store_unanswered =
     (Inr (RenderExam 1 0), store_unanswered)"
  by (simp add: exam_page_def Exam_get_def store_unanswered_def exam_one_def
      check_time_allowed_def timedelta_minutes_def int_total_seconds_def)

text \<open>
  One minute after the limit the page does call Auto-submit, which fails on the
  placeholder as shown above: the request ends in the exception, not in the redirect.
\<close>

lemma exam_page_auto_submit_raises:
  "exam_page (Some 1) 1 3660000000 store_unanswered =
     (Inl IntegrityError, store_unanswered)"
  by (simp add: exam_page_def Exam_get_def auto_submit_exam_def commit_answers_def
      placeholder_def store_unanswered_def exam_one_def timedelta_minutes_def
      int_total_seconds_def)

section \<open>Properties of grading\<close>

lemma grade_row_fields [simp]:
  "ea_exam_id (grade_row s a) = ea_exam_id a"
  "ea_question_id (grade_row s a) = ea_question_id a"
  "ea_student_answer (grade_row s a) = ea_student_answer a"
  "ea_student_id (grade_row s a) = ea_student_id a"
  "ea_id (grade_row s a) = ea_id a"
  by (simp_all add: grade_row_def split: option.splits prod.splits)

lemma graded_fields [simp]:
  "ea_exam_id (graded s eid a) = ea_exam_id a"
  "ea_question_id (graded s eid a) = ea_question_id a"
  "ea_student_answer (graded s eid a) = ea_student_answer a"
  by (simp_all add: graded_def)

lemma grade_row_idem [simp]: "grade_row s (grade_row s a) = grade_row s a"
  by (simp add: grade_row_def split: option.splits prod.splits)

lemma graded_idem [simp]: "graded s eid (graded s eid a) = graded s eid a"
  by (simp add: graded_def)

lemma gradable_graded [simp]: "gradable s eid (graded s eid a) = gradable s eid a"
  by (simp add: gradable_def)

lemma grade_loop_closed:
  "grade_loop s eid rows t =
     (map (graded s eid) rows,
      t + score_sum (map (grade_row s) (filter (gradable s eid) rows)))"
proof (induction rows arbitrary: t)
  case Nil
  show ?case by (simp add: score_sum_def)
next
  case (Cons a rows)
  show ?case
  proof (cases "ea_exam_id a = eid")
    case False
    then show ?thesis
      by (simp add: Cons graded_def gradable_def)
  next
    case True
    show ?thesis
    proof (cases "Question_get s (ea_question_id a)")
      case None
      then show ?thesis
        using True by (simp add: Cons graded_def gradable_def grade_row_def)
    next
      case (Some q)
      obtain c sc where g: "grade_answer_text (or_empty (ea_student_answer a)) (q_model_answer q) = (c, sc)"
        by (cases "grade_answer_text (or_empty (ea_student_answer a)) (q_model_answer q)")
      show ?thesis
        using True Some g
        by (simp add: Cons graded_def gradable_def grade_row_def score_sum_def)
    qed
  qed
qed


lemma find_update_first:
  "find P xs = Some x \<Longrightarrow> P (f x) \<Longrightarrow> find P (update_first P f xs) = Some (f x)"
  by (induction xs) (auto split: if_splits)

lemma Question_get_cong: "questions s' = questions s \<Longrightarrow> Question_get s' = Question_get s"
  by (simp add: Question_get_def fun_eq_iff)

lemma grade_exam_result:
  "grade_exam exam_id s =
     (case Exam_get s exam_id of
        None \<Rightarrow> (Inl AttributeError, s)
      | Some exam \<Rightarrow>
          (Inr (score_sum (map (grade_row s) (filter (gradable s exam_id) (exam_answers s)))),
           s\<lparr>exam_answers := map (graded s exam_id) (exam_answers s),
             exams := update_first (\<lambda>e. e_id e = exam_id)
                (\<lambda>e. e\<lparr>e_total_score :=
                         score_sum (map (grade_row s) (filter (gradable s exam_id) (exam_answers s))),
                       e_status := ''completed''\<rparr>)
                (exams s)\<rparr>))"
  by (simp add: grade_exam_def grade_loop_closed split: option.splits)


lemma grade_paris: "grade_answer_text ''paris'' ''Paris'' = (True, 1)"
  by code_simp




section \<open>Auto-submit twice\<close>

lemma commit_placeholders:
  "commit_answers (map (placeholder eid) qls) s =
     (if qls = [] then Inr s else Inl IntegrityError)"
  by (cases qls) (simp_all add: commit_answers_def placeholder_def)

lemma grade_row_cong: "questions s' = questions s \<Longrightarrow> grade_row s' = grade_row s"
  by (simp add: grade_row_def fun_eq_iff Question_get_def)

lemma graded_cong: "questions s' = questions s \<Longrightarrow> graded s' = graded s"
  using grade_row_cong[of s' s] by (simp add: graded_def fun_eq_iff)

lemma gradable_cong: "questions s' = questions s \<Longrightarrow> gradable s' = gradable s"
  by (simp add: gradable_def fun_eq_iff Question_get_def)

lemma find_id: "find (\<lambda>e. e_id e = eid) xs = Some x \<Longrightarrow> e_id x = eid"
  by (auto simp: find_Some_iff)

lemma total_update_first:
  "find P xs = Some x \<Longrightarrow> e_total_score (f x) = e_total_score x \<Longrightarrow>
   map e_total_score (update_first P f xs) = map e_total_score xs"
proof (induction xs)
  case Nil
  then show ?case by simp
next
  case (Cons a xs)
  show ?case
  proof (cases "P a")
    case True
    then have "x = a" using Cons.prems(1) by simp
    then show ?thesis using True Cons.prems(2) by simp
  next
    case False
    then have "find P xs = Some x" using Cons.prems(1) by simp
    then show ?thesis using False Cons.IH Cons.prems(2) by simp
  qed
qed

lemma auto_submit_exam_result:
  "auto_submit_exam now exam s =
     (if missing_links (e_id exam) s \<noteq> [] then (Inl IntegrityError, s)
      else case Exam_get s (e_id exam) of
             None \<Rightarrow> (Inl AttributeError, s)
           | Some ex \<Rightarrow>
               (Inr (auto_total (e_id exam) s),
                add_log now (e_student_id ex)
                  (''Exam '' @ str_nat (e_id exam) @ '' auto-submitted with score '' @
                   str_int (auto_total (e_id exam) s))
                  (s\<lparr>exam_answers := map (graded s (e_id exam)) (exam_answers s),
                     exams := update_first (\<lambda>e. e_id e = e_id exam)
                        (\<lambda>e. e\<lparr>e_status := ''auto-submitted'', e_end_time := Some now,
                               e_total_score := auto_total (e_id exam) s\<rparr>)
                        (update_first (\<lambda>e. e_id e = e_id exam)
                           (\<lambda>e. e\<lparr>e_total_score := auto_total (e_id exam) s,
                                  e_status := ''completed''\<rparr>)
                           (exams s))\<rparr>)))"
proof (cases "missing_links (e_id exam) s = []")
  case False
  then show ?thesis
    by (simp add: auto_submit_exam_def Let_def commit_placeholders missing_links_def)
next
  case True
  show ?thesis
  proof (cases "Exam_get s (e_id exam)")
    case None
    then show ?thesis
      using True
      by (simp add: auto_submit_exam_def Let_def commit_placeholders missing_links_def
          grade_exam_result)
  next
    case (Some ex)
    let ?g = "\<lambda>e. e\<lparr>e_total_score := auto_total (e_id exam) s, e_status := ''completed''\<rparr>"
    have fnd: "find (\<lambda>e. e_id e = e_id exam) (exams s) = Some ex"
      using Some by (simp add: Exam_get_def)
    have "find (\<lambda>e. e_id e = e_id exam) (update_first (\<lambda>e. e_id e = e_id exam) ?g (exams s)) =
        Some (?g ex)"
      using find_update_first[OF fnd, of ?g] find_id[OF fnd] by simp
    then show ?thesis
      using True Some
      by (simp add: auto_submit_exam_def Let_def commit_placeholders missing_links_def
          grade_exam_result Exam_get_def auto_total_def)
  qed
qed

lemma graded_rows_again:
  "map (grade_row s) (filter (gradable s eid) (map (graded s eid) rows)) =
   map (grade_row s) (filter (gradable s eid) rows)"
  by (induction rows) (auto simp: graded_def gradable_def)

lemma answered_qids_graded:
  "map ea_question_id (filter (\<lambda>a. ea_exam_id a = eid) (map (graded s eid) rows)) =
   map ea_question_id (filter (\<lambda>a. ea_exam_id a = eid) rows)"
  by (induction rows) simp_all

lemma auto_submit_exam_error:
  "missing_links (e_id exam) s \<noteq> [] \<or> Exam_get s (e_id exam) = None \<Longrightarrow>
   auto_submit_exam now exam s =
     (if missing_links (e_id exam) s \<noteq> [] then Inl IntegrityError else Inl AttributeError, s)"
  by (cases "Exam_get s (e_id exam)") (simp_all add: auto_submit_exam_result)

lemma auto_submit_exam_ok:
  assumes "missing_links (e_id exam) s = []" "Exam_get s (e_id exam) = Some ex"
    and "auto_submit_exam now exam s = (r, s1)"
  shows "r = Inr (auto_total (e_id exam) s)"
    and "exam_answers s1 = map (graded s (e_id exam)) (exam_answers s)"
    and "exams s1 = auto_submitted now (e_id exam) s"
    and "questions s1 = questions s"
    and "exam_questions s1 = exam_questions s"
proof -
  let ?S = "add_log now (e_student_id ex)
                  (''Exam '' @ str_nat (e_id exam) @ '' auto-submitted with score '' @
                   str_int (auto_total (e_id exam) s))
                  (s\<lparr>exam_answers := map (graded s (e_id exam)) (exam_answers s),
                     exams := auto_submitted now (e_id exam) s\<rparr>)"
  have "auto_submit_exam now exam s = (Inr (auto_total (e_id exam) s), ?S)"
    unfolding auto_submit_exam_result auto_submitted_def using assms(1,2) by simp
  then have r: "r = Inr (auto_total (e_id exam) s)" and s1: "s1 = ?S"
    using assms(3) by simp_all
  show "r = Inr (auto_total (e_id exam) s)" by (rule r)
  show "exam_answers s1 = map (graded s (e_id exam)) (exam_answers s)"
    unfolding s1 by (simp add: add_log_def)
  show "exams s1 = auto_submitted now (e_id exam) s"
    unfolding s1 by (simp add: add_log_def)
  show "questions s1 = questions s"
    unfolding s1 by (simp add: add_log_def)
  show "exam_questions s1 = exam_questions s"
    unfolding s1 by (simp add: add_log_def)
qed

lemma find_auto_submitted:
  assumes "find (\<lambda>e. e_id e = eid) (exams s) = Some ex"
  shows "\<exists>ex'. find (\<lambda>e. e_id e = eid) (auto_submitted now eid s) = Some ex' \<and>
           e_total_score ex' = auto_total eid s"
proof -
  let ?P = "\<lambda>e. e_id e = eid"
  let ?g = "\<lambda>e. e\<lparr>e_total_score := auto_total eid s, e_status := ''completed''\<rparr>"
  let ?h = "\<lambda>e. e\<lparr>e_status := ''auto-submitted'', e_end_time := Some now,
                  e_total_score := auto_total eid s\<rparr>"
  have idx: "e_id ex = eid"
    using find_id[OF assms] .
  have f1: "find ?P (update_first ?P ?g (exams s)) = Some (?g ex)"
    using find_update_first[OF assms, of ?g] idx by simp
  have f2: "find ?P (update_first ?P ?h (update_first ?P ?g (exams s))) = Some (?h (?g ex))"
    using find_update_first[OF f1, of ?h] idx by simp
  show ?thesis
    unfolding auto_submitted_def using f2 by simp
qed

lemma total_auto_submitted:
  assumes "find (\<lambda>e. e_id e = eid) (exams s) = Some ex" "e_total_score ex = auto_total eid s"
  shows "map e_total_score (auto_submitted now eid s) = map e_total_score (exams s)"
proof -
  let ?P = "\<lambda>e. e_id e = eid"
  let ?g = "\<lambda>e. e\<lparr>e_total_score := auto_total eid s, e_status := ''completed''\<rparr>"
  let ?h = "\<lambda>e. e\<lparr>e_status := ''auto-submitted'', e_end_time := Some now,
                  e_total_score := auto_total eid s\<rparr>"
  have idx: "e_id ex = eid"
    using find_id[OF assms(1)] .
  have f1: "find ?P (update_first ?P ?g (exams s)) = Some (?g ex)"
    using find_update_first[OF assms(1), of ?g] idx by simp
  have "map e_total_score (update_first ?P ?h (update_first ?P ?g (exams s))) =
        map e_total_score (update_first ?P ?g (exams s))"
    by (rule total_update_first[OF f1]) simp
  also have "\<dots> = map e_total_score (exams s)"
    by (rule total_update_first[OF assms(1)]) (simp add: assms(2))
  finally show ?thesis
    by (simp add: auto_submitted_def)
qed

lemma auto_submit_store_answered:
  "fst (auto_submit_exam 3660000000 exam_one store_answered) = Inr 1"
  by (simp add: auto_submit_exam_def commit_answers_def grade_exam_def Exam_get_def
      Question_get_def or_empty_def grade_paris store_answered_def store_unanswered_def
      exam_one_def Let_def)


text \<open>
  Claim C3. Auto-submit is idempotent: run twice in succession on an exam instance, the
  second run returns what the first returned (the same total, or the same exception),
  leaves the answer records exactly as the first run left them, so that no record is
  added, and leaves every stored total score as it was.
\<close>

theorem auto_submit_exam_idempotent:
  assumes first: "auto_submit_exam now exam s = (r, s1)"
    and second: "auto_submit_exam now' exam s1 = (r', s2)"
  shows "r' = r \<and> exam_answers s2 = exam_answers s1 \<and>
         map e_total_score (exams s2) = map e_total_score (exams s1)"
proof (cases "missing_links (e_id exam) s \<noteq> [] \<or> Exam_get s (e_id exam) = None")
  case True
  let ?E = "if missing_links (e_id exam) s \<noteq> [] then Inl IntegrityError
            else Inl AttributeError"
  have "auto_submit_exam now exam s = (?E, s)"
    by (rule auto_submit_exam_error[OF True])
  then have one: "r = ?E" "s1 = s"
    using first by simp_all
  have "auto_submit_exam now' exam s = (?E, s)"
    by (rule auto_submit_exam_error[OF True])
  moreover have "auto_submit_exam now' exam s = (r', s2)"
    using second one(2) by simp
  ultimately have two: "r' = ?E" "s2 = s"
    by simp_all
  show ?thesis
    by (simp only: one two simp_thms)
next
  case False
  then obtain ex where ex: "Exam_get s (e_id exam) = Some ex"
    and ml: "missing_links (e_id exam) s = []"
    by auto
  let ?eid = "e_id exam"
  note ok1 = auto_submit_exam_ok[OF ml ex first]
  have fnd: "find (\<lambda>e. e_id e = ?eid) (exams s) = Some ex"
    using ex by (simp add: Exam_get_def)
  obtain ex1 where f1: "find (\<lambda>e. e_id e = ?eid) (exams s1) = Some ex1"
    and t1: "e_total_score ex1 = auto_total ?eid s"
    using find_auto_submitted[OF fnd, of now] ok1(3) by auto
  have ml1: "missing_links ?eid s1 = []"
    using ml by (simp add: missing_links_def ok1(2) ok1(5) answered_qids_graded)
  have T1: "auto_total ?eid s1 = auto_total ?eid s"
    by (simp add: auto_total_def ok1(2) grade_row_cong[OF ok1(4)] gradable_cong[OF ok1(4)]
        graded_rows_again)
  have ex1: "Exam_get s1 ?eid = Some ex1"
    using f1 by (simp add: Exam_get_def)
  note ok2 = auto_submit_exam_ok[OF ml1 ex1 second]
  have "r' = r"
    using ok1(1) ok2(1) T1 by simp
  moreover have "exam_answers s2 = exam_answers s1"
    by (simp add: ok2(2) ok1(2) graded_cong[OF ok1(4)])
  moreover have "map e_total_score (exams s2) = map e_total_score (exams s1)"
    unfolding ok2(3) by (rule total_auto_submitted[OF f1]) (simp add: t1 T1)
  ultimately show ?thesis by simp
qed

theorem auto_submit_exam_idempotent_witness:
  "fst (auto_submit_exam 3660000000 exam_one store_answered) = Inr 1 \<and>
   fst (auto_submit_exam 3720000000 exam_one
          (snd (auto_submit_exam 3660000000 exam_one store_answered))) =
     fst (auto_submit_exam 3660000000 exam_one store_answered) \<and>
   exam_answers (snd (auto_submit_exam 3720000000 exam_one
          (snd (auto_submit_exam 3660000000 exam_one store_answered)))) =
     exam_answers (snd (auto_submit_exam 3660000000 exam_one store_answered)) \<and>
   map e_total_score (exams (snd (auto_submit_exam 3720000000 exam_one
          (snd (auto_submit_exam 3660000000 exam_one store_answered))))) =
     map e_total_score (exams (snd (auto_submit_exam 3660000000 exam_one store_answered)))"
proof -
  have first: "auto_submit_exam 3660000000 exam_one store_answered =
      (fst (auto_submit_exam 3660000000 exam_one store_answered),
       snd (auto_submit_exam 3660000000 exam_one store_answered))"
    by simp
  have second: "auto_submit_exam 3720000000 exam_one
        (snd (auto_submit_exam 3660000000 exam_one store_answered)) =
      (fst (auto_submit_exam 3720000000 exam_one
             (snd (auto_submit_exam 3660000000 exam_one store_answered))),
       snd (auto_submit_exam 3720000000 exam_one
             (snd (auto_submit_exam 3660000000 exam_one store_answered))))"
    by simp
  show ?thesis
    using auto_submit_exam_idempotent [OF first second] auto_submit_store_answered
    by blast
qed

section \<open>Recording answers\<close>

lemma submit_grade_loop_closed:
  "submit_grade_loop s eid rows t =
     (if \<exists>a\<in>set rows. ea_exam_id a = eid \<and> Question_get s (ea_question_id a) = None
      then Inl AttributeError else Inr (grade_loop s eid rows t))"
proof (induction rows arbitrary: t)
  case Nil
  show ?case by simp
next
  case (Cons a rows)
  show ?case
  proof (cases "ea_exam_id a = eid")
    case False
    then show ?thesis
      by (simp add: Cons split: prod.splits)
  next
    case True
    show ?thesis
    proof (cases "Question_get s (ea_question_id a)")
      case None
      then show ?thesis using True by simp
    next
      case (Some q)
      obtain c sc where g:
        "grade_answer_text (or_empty (ea_student_answer a)) (q_model_answer q) = (c, sc)"
        by (cases "grade_answer_text (or_empty (ea_student_answer a)) (q_model_answer q)")
      show ?thesis
        using True Some g by (simp add: Cons split: prod.splits)
    qed
  qed
qed




lemma upsert_other_tables:
  "exams (upsert_answer eid sid item s) = exams s"
  "questions (upsert_answer eid sid item s) = questions s"
  by (simp_all add: upsert_answer_def insert_answer_def split: option.splits)

lemma fold_upsert_other_tables:
  "exams (fold (upsert_answer eid sid) items s) = exams s \<and>
   questions (fold (upsert_answer eid sid) items s) = questions s"
  by (induction items arbitrary: s) (simp_all add: upsert_other_tables)

lemma submit_exam_in_time:
  assumes "Exam_get s exam_id = Some exam" "e_student_id exam = sid"
    "check_time_allowed exam now"
  shows "submit_exam (Some sid) exam_id now (Some items) s =
     (let s1 = fold (upsert_answer exam_id sid) items s
      in if \<exists>a\<in>set (exam_answers s1).
              ea_exam_id a = exam_id \<and> Question_get s (ea_question_id a) = None
         then (Inl AttributeError, s1)
         else (Inr (JsonGraded (auto_total exam_id s1) exam_id),
               s1\<lparr>exam_answers := map (graded s exam_id) (exam_answers s1),
                  exams := update_first (\<lambda>e. e_id e = exam_id)
                     (\<lambda>e. e\<lparr>e_total_score := auto_total exam_id s1,
                            e_status := ''completed''\<rparr>)
                     (exams s)\<rparr>))"
proof -
  let ?s1 = "fold (upsert_answer exam_id sid) items s"
  have q: "questions ?s1 = questions s" and e: "exams ?s1 = exams s"
    using fold_upsert_other_tables[of exam_id sid items s] by simp_all
  have qg: "Question_get ?s1 = Question_get s"
    by (rule Question_get_cong[OF q])
  show ?thesis
    using assms
    by (simp add: submit_exam_def Let_def submit_grade_loop_closed grade_loop_closed qg e
        auto_total_def graded_cong[OF q])
qed












section \<open>The student of an answer record\<close>

lemma owner_of_update_first:
  "(\<And>e. e_id (f e) = e_id e) \<Longrightarrow> (\<And>e. e_student_id (f e) = e_student_id e) \<Longrightarrow>
   owner_of (update_first P f es) k = owner_of es k"
  by (induction es) (simp_all add: owner_of_def)

lemma owner_of_map:
  "(\<And>e. e_id (f e) = e_id e) \<Longrightarrow> (\<And>e. e_student_id (f e) = e_student_id e) \<Longrightarrow>
   owner_of (map f es) k = owner_of es k"
  by (induction es) (simp_all add: owner_of_def)

lemma owner_of_append:
  "owner_of es k = Some x \<Longrightarrow> owner_of (es @ ys) k = Some x"
  by (induction es) (auto simp: owner_of_def)

lemma carries_owner_mono:
  "(\<And>k x. owner_of es k = Some x \<Longrightarrow> owner_of es' k = Some x) \<Longrightarrow>
   ea_exam_id a' = ea_exam_id a \<Longrightarrow> ea_student_id a' = ea_student_id a \<Longrightarrow>
   carries_owner es a \<Longrightarrow> carries_owner es' a'"
  by (auto simp: carries_owner_def)

lemma carry_step:
  assumes inv: "answers_carry_owner s"
    and own: "\<And>k x. owner_of (exams s) k = Some x \<Longrightarrow> owner_of (exams s') k = Some x"
    and rows: "exam_answers s' = map g (exam_answers s)"
    and g: "\<And>a. ea_exam_id (g a) = ea_exam_id a" "\<And>a. ea_student_id (g a) = ea_student_id a"
  shows "answers_carry_owner s'"
  using inv carries_owner_mono[OF own g]
  by (auto simp: answers_carry_owner_def rows list_all_iff)

lemma graded_student [simp]: "ea_student_id (graded s eid a) = ea_student_id a"
  by (simp add: graded_def)

lemma carry_grade_exam:
  "answers_carry_owner s \<Longrightarrow> answers_carry_owner (snd (grade_exam exam_id s))"
proof (cases "Exam_get s exam_id")
  case None
  then show "answers_carry_owner s \<Longrightarrow> ?thesis"
    by (simp add: grade_exam_result)
next
  case (Some exam)
  assume inv: "answers_carry_owner s"
  show ?thesis
    unfolding grade_exam_result Some
    by (rule carry_step[OF inv, where g = "graded s exam_id"])
       (simp_all add: owner_of_update_first)
qed

lemma carry_add_log:
  "answers_carry_owner (add_log now sid msg s) = answers_carry_owner s"
  by (simp add: answers_carry_owner_def add_log_def)

lemma carry_auto_submit_exam:
  assumes inv: "answers_carry_owner s"
  shows "answers_carry_owner (snd (auto_submit_exam now exam s))"
proof (cases "missing_links (e_id exam) s \<noteq> [] \<or> Exam_get s (e_id exam) = None")
  case True
  then show ?thesis
    using inv by (simp add: auto_submit_exam_error)
next
  case False
  then obtain ex where ex: "Exam_get s (e_id exam) = Some ex"
    and ml: "missing_links (e_id exam) s = []"
    by auto
  have run: "auto_submit_exam now exam s =
      (fst (auto_submit_exam now exam s), snd (auto_submit_exam now exam s))"
    by simp
  note ok = auto_submit_exam_ok[OF ml ex run]
  show ?thesis
    by (rule carry_step[OF inv, where g = "graded s (e_id exam)"])
       (simp_all add: ok(2) ok(3) auto_submitted_def owner_of_update_first)
qed

lemma snd_case_result:
  "snd (case p of (Inl err, s') \<Rightarrow> (Inl err, s') | (Inr t, s') \<Rightarrow> (Inr c, s')) = snd p"
  by (auto split: prod.splits sum.splits)

lemma carry_exam_page:
  assumes inv: "answers_carry_owner s"
  shows "answers_carry_owner (snd (exam_page session exam_id now s))"
  using inv
  by (auto simp: exam_page_def Let_def snd_case_result carry_auto_submit_exam
      split: option.splits)

lemma carry_insert_answer:
  "answers_carry_owner s \<Longrightarrow> owner_of (exams s) (ea_exam_id a) = ea_student_id a \<Longrightarrow>
   ea_student_id a \<noteq> None \<Longrightarrow> answers_carry_owner (insert_answer a s)"
  by (simp add: answers_carry_owner_def insert_answer_def carries_owner_def)

lemma carry_upsert_answer:
  assumes inv: "answers_carry_owner s" and own: "owner_of (exams s) exam_id = Some sid"
  shows "answers_carry_owner (upsert_answer exam_id sid item s)"
proof (cases "item_question_id item")
  case None
  then show ?thesis using inv by (simp add: upsert_answer_def)
next
  case (Some qid)
  let ?P = "\<lambda>a. ea_exam_id a = exam_id \<and> ea_question_id a = qid"
  show ?thesis
  proof (cases "list_ex ?P (exam_answers s)")
    case True
    have "list_all (carries_owner (exams s))
            (update_first ?P (\<lambda>a. a\<lparr>ea_student_answer := item_answer item\<rparr>) rows)"
      if "list_all (carries_owner (exams s)) rows" for rows
      using that by (induction rows) (auto simp: carries_owner_def)
    then show ?thesis
      using inv True Some by (simp add: upsert_answer_def answers_carry_owner_def)
  next
    case False
    then show ?thesis
      using Some own carry_insert_answer[OF inv, of
          "\<lparr>ea_id = 0, ea_exam_id = exam_id, ea_question_id = qid,
            ea_student_id = Some sid, ea_student_answer = item_answer item,
            ea_is_correct = False, ea_score = 0\<rparr>"]
      by (simp add: upsert_answer_def)
  qed
qed

lemma carry_fold_upsert:
  "answers_carry_owner s \<Longrightarrow> owner_of (exams s) exam_id = Some sid \<Longrightarrow>
   answers_carry_owner (fold (upsert_answer exam_id sid) items s)"
proof (induction items arbitrary: s)
  case Nil
  then show ?case by simp
next
  case (Cons i items)
  have "answers_carry_owner (upsert_answer exam_id sid i s)"
    by (rule carry_upsert_answer[OF Cons.prems])
  moreover have "owner_of (exams (upsert_answer exam_id sid i s)) exam_id = Some sid"
    using Cons.prems(2) by (simp add: upsert_other_tables)
  ultimately show ?case
    using Cons.IH by simp
qed

lemma carry_submit_exam:
  assumes inv: "answers_carry_owner s"
  shows "answers_carry_owner (snd (submit_exam session exam_id now data s))"
proof (cases "\<exists>sid exam items. session = Some sid \<and> Exam_get s exam_id = Some exam \<and>
    e_student_id exam = sid \<and> check_time_allowed exam now \<and> data = Some items")
  case False
  then show ?thesis
    using inv
    by (auto simp: submit_exam_def snd_case_result carry_auto_submit_exam
        split: option.splits)
next
  case True
  then obtain sid exam items where h: "session = Some sid" "Exam_get s exam_id = Some exam"
    "e_student_id exam = sid" "check_time_allowed exam now" "data = Some items"
    by blast
  let ?s1 = "fold (upsert_answer exam_id sid) items s"
  have own: "owner_of (exams s) exam_id = Some sid"
    using h(2,3) by (simp add: owner_of_def Exam_get_def)
  have inv1: "answers_carry_owner ?s1"
    by (rule carry_fold_upsert[OF inv own])
  have e1: "exams ?s1 = exams s"
    using fold_upsert_other_tables[of exam_id sid items s] by simp
  have "answers_carry_owner
          (?s1\<lparr>exam_answers := map (graded s exam_id) (exam_answers ?s1),
               exams := update_first (\<lambda>e. e_id e = exam_id)
                  (\<lambda>e. e\<lparr>e_total_score := auto_total exam_id ?s1,
                         e_status := ''completed''\<rparr>)
                  (exams s)\<rparr>)"
    by (rule carry_step[OF inv1, where g = "graded s exam_id"])
       (simp_all add: owner_of_update_first e1)
  then show ?thesis
    using inv1 unfolding h(1,5) submit_exam_in_time[OF h(2,3,4)]
    by (simp add: Let_def)
qed

lemma exam_answers_fold_add_exam_question:
  "exam_answers (fold (add_exam_question exam_id) ps s) = exam_answers s"
  by (induction ps arbitrary: s) (simp_all add: add_exam_question_def split: prod.splits)

lemma exam_answers_start_exam:
  "exam_answers (snd (start_exam sample now session s)) = exam_answers s"
  by (simp add: start_exam_def create_exam_for_student_def Let_def add_log_def
      exam_answers_fold_add_exam_question split: option.splits)

lemma carry_start_exam:
  assumes inv: "answers_carry_owner s"
  shows "answers_carry_owner (snd (start_exam sample now session s))"
proof (cases session)
  case None
  then show ?thesis using inv by (simp add: start_exam_def)
next
  case (Some student_id)
  have own: "owner_of (exams (snd (start_exam sample now session s))) k = Some x"
    if "owner_of (exams s) k = Some x" for k x
    unfolding Some exams_start_exam
    by (rule owner_of_append) (simp add: owner_of_map close_in_progress_def that)
  show ?thesis
    by (rule carry_step[OF inv own, where g = "\<lambda>a. a"])
       (simp_all add: exam_answers_start_exam)
qed

lemma answers_carry_owner_empty_store: "answers_carry_owner empty_store"
  by (simp add: answers_carry_owner_def empty_store_def)

lemma submit_on_store_answered:
  "map ea_student_id (exam_answers (snd (submit_exam (Some 1) 1 1000
     (Some [\<lparr>item_question_id = Some 2, item_answer = Some ''rome''\<rparr>]) store_answered))) =
   [Some 1, Some 1]"
  by (simp add: submit_exam_def Exam_get_def Question_get_def check_time_allowed_def
      timedelta_minutes_def upsert_answer_def insert_answer_def next_id_def or_empty_def
      grade_paris store_answered_def store_unanswered_def exam_one_def Let_def)

text \<open>
  Claim C9. Every answer record that an operation stores carries the identifier of the
  student who owns the exam instance; the student is never absent. The property holds
  in the empty store (lemma \<open>answers_carry_owner_empty_store\<close>), and a store that has
  it keeps it under Start, the exam page, Record-answer, Auto-submit and Grade. For
  the placeholders of Auto-submit it holds because none is ever stored: the commit of a
  record without student is rejected.
\<close>

theorem answers_carry_owner_preserved:
  assumes "answers_carry_owner s"
  shows "answers_carry_owner (snd (start_exam sample now session s)) \<and>
         answers_carry_owner (snd (exam_page session exam_id now s)) \<and>
         answers_carry_owner (snd (submit_exam session exam_id now data s)) \<and>
         answers_carry_owner (snd (auto_submit_exam now exam s)) \<and>
         answers_carry_owner (snd (grade_exam exam_id s))"
  using assms
  by (simp add: carry_start_exam carry_exam_page carry_submit_exam carry_auto_submit_exam
      carry_grade_exam)

theorem answers_carry_owner_preserved_witness:
  "answers_carry_owner store_answered \<and>
   map ea_student_id (exam_answers (snd (submit_exam (Some 1) 1 1000
     (Some [\<lparr>item_question_id = Some 2, item_answer = Some ''rome''\<rparr>]) store_answered))) =
     [Some 1, Some 1] \<and>
   answers_carry_owner (snd (start_exam first_k 1000 (Some 1) store_answered)) \<and>
   answers_carry_owner (snd (exam_page (Some 1) 1 1000 store_answered)) \<and>
   answers_carry_owner (snd (submit_exam (Some 1) 1 1000
     (Some [\<lparr>item_question_id = Some 2, item_answer = Some ''rome''\<rparr>]) store_answered)) \<and>
   answers_carry_owner (snd (auto_submit_exam 1000 exam_one store_answered)) \<and>
   answers_carry_owner (snd (grade_exam 1 store_answered))"
proof -
  have h: "answers_carry_owner store_answered"
    by (simp add: answers_carry_owner_def carries_owner_def owner_of_def store_answered_def
        store_unanswered_def exam_one_def)
  show ?thesis
    using h submit_on_store_answered
      answers_carry_owner_preserved [OF h, of first_k 1000 "Some 1" 1
        "Some [\<lparr>item_question_id = Some 2, item_answer = Some ''rome''\<rparr>]" exam_one]
    by blast
qed

end
